theory Spec2Isabelle
  imports Main
begin

section \<open>JavaScript strings, arrays and object literals\<close>

text \<open>
  Strings are lists of characters; a character is read as the code point of the same
  number (0 to 255). \<open>toLowerCase\<close> is the Unicode lower-casing restricted to that range:
  the letters A to Z, and the Latin-1 capitals U+00C0 to U+00DE without the
  multiplication sign U+00D7, move up by 32.
\<close>

definition toLowerChar :: "char \<Rightarrow> char" where
  "toLowerChar c = (let n = (of_char c :: nat) in
     if (65 \<le> n \<and> n \<le> 90) \<or> (192 \<le> n \<and> n \<le> 222 \<and> n \<noteq> 215)
     then char_of (n + 32) else c)"

definition toLowerCase :: "string \<Rightarrow> string" where
  "toLowerCase s = map toLowerChar s"

text \<open>\<open>s.split(sep)\<close> for a one-character separator: \<open>"".split("@")\<close> is \<open>[""]\<close>.\<close>

fun split_on :: "char \<Rightarrow> string \<Rightarrow> string list" where
  "split_on sep [] = [[]]"
| "split_on sep (c # cs) =
     (if c = sep then [] # split_on sep cs
      else (case split_on sep cs of
              [] \<Rightarrow> [[c]]
            | p # ps \<Rightarrow> (c # p) # ps))"

text \<open>\<open>parts.join(sep)\<close>.\<close>

fun join :: "string \<Rightarrow> string list \<Rightarrow> string" where
  "join sep [] = []"
| "join sep [p] = p"
| "join sep (p # q # ps) = p @ sep @ join sep (q # ps)"

text \<open>\<open>xs[i]\<close>: reading past the end of an array gives \<open>undefined\<close>, here \<open>None\<close>.\<close>

fun nth_opt :: "'a list \<Rightarrow> nat \<Rightarrow> 'a option" where
  "nth_opt [] i = None"
| "nth_opt (x # xs) 0 = Some x"
| "nth_opt (x # xs) (Suc i) = nth_opt xs i"

text \<open>\<open>s.startsWith(p)\<close> and \<open>s.includes(p)\<close>.\<close>

definition startsWith :: "string \<Rightarrow> string \<Rightarrow> bool" where
  "startsWith s p = (take (length p) s = p)"

fun includes_str :: "string \<Rightarrow> string \<Rightarrow> bool" where
  "includes_str [] p = (p = [])"
| "includes_str (c # cs) p = (startsWith (c # cs) p \<or> includes_str cs p)"

text \<open>
  An object literal with string keys and string values is read with \<open>obj[key]\<close>. The read
  first looks at the literal's own entries and then at \<open>Object.prototype\<close>, which every
  object literal inherits from. An inherited member is a function (or, for \<open>__proto__\<close>,
  the prototype object itself); it is truthy, and a template literal converts it to the
  text given in the second component below (the text Node's engine prints for a built-in
  function).
\<close>

datatype jsprop = JUndefined | JStr string | JInherited string

definition object_prototype :: "(string \<times> string) list" where
  "object_prototype =
    [(''constructor'', ''function Object() { [native code] }''),
     (''__proto__'', ''[object Object]''),
     (''hasOwnProperty'', ''function hasOwnProperty() { [native code] }''),
     (''isPrototypeOf'', ''function isPrototypeOf() { [native code] }''),
     (''propertyIsEnumerable'', ''function propertyIsEnumerable() { [native code] }''),
     (''toLocaleString'', ''function toLocaleString() { [native code] }''),
     (''toString'', ''function toString() { [native code] }''),
     (''valueOf'', ''function valueOf() { [native code] }''),
     (''__defineGetter__'', ''function __defineGetter__() { [native code] }''),
     (''__defineSetter__'', ''function __defineSetter__() { [native code] }''),
     (''__lookupGetter__'', ''function __lookupGetter__() { [native code] }''),
     (''__lookupSetter__'', ''function __lookupSetter__() { [native code] }'')]"

definition js_get :: "(string \<times> string) list \<Rightarrow> string \<Rightarrow> jsprop" where
  "js_get own key =
     (case map_of own key of
        Some v \<Rightarrow> JStr v
      | None \<Rightarrow> (case map_of object_prototype key of
                  Some s \<Rightarrow> JInherited s
                | None \<Rightarrow> JUndefined))"

fun truthy :: "jsprop \<Rightarrow> bool" where
  "truthy JUndefined = False"
| "truthy (JStr v) = (v \<noteq> [])"
| "truthy (JInherited s) = True"

fun to_text :: "jsprop \<Rightarrow> string" where
  "to_text JUndefined = ''undefined''"
| "to_text (JStr v) = v"
| "to_text (JInherited s) = s"

section \<open>Regular expressions\<close>

text \<open>
  The two address patterns are anchored at both ends and are used with \<open>test\<close> only, so
  a string passes exactly when the whole string is in the pattern's language. The
  patterns are kept as syntax trees and matched with derivatives. A character class is a
  list of ranges, single characters and \<open>\s\<close>, with a flag for negation. In the range of
  code points modelled, \<open>\s\<close> holds tab, line feed, vertical tab, form feed, carriage
  return, space and the no-break space.
\<close>

datatype citem = Range char char | Single char | Space

datatype rx = Zero | One | Cls bool "citem list" | Alt rx rx | Seq rx rx | Star rx

fun in_item :: "char \<Rightarrow> citem \<Rightarrow> bool" where
  "in_item c (Range lo hi) =
     ((of_char lo :: nat) \<le> of_char c \<and> (of_char c :: nat) \<le> of_char hi)"
| "in_item c (Single d) = (c = d)"
| "in_item c Space = ((of_char c :: nat) \<in> {9, 10, 11, 12, 13, 32, 160})"

definition in_class :: "bool \<Rightarrow> citem list \<Rightarrow> char \<Rightarrow> bool" where
  "in_class neg items c = ((\<exists>i \<in> set items. in_item c i) \<noteq> neg)"

fun nullable :: "rx \<Rightarrow> bool" where
  "nullable Zero = False"
| "nullable One = True"
| "nullable (Cls neg items) = False"
| "nullable (Alt r s) = (nullable r \<or> nullable s)"
| "nullable (Seq r s) = (nullable r \<and> nullable s)"
| "nullable (Star r) = True"

fun deriv :: "char \<Rightarrow> rx \<Rightarrow> rx" where
  "deriv c Zero = Zero"
| "deriv c One = Zero"
| "deriv c (Cls neg items) = (if in_class neg items c then One else Zero)"
| "deriv c (Alt r s) = Alt (deriv c r) (deriv c s)"
| "deriv c (Seq r s) =
     (if nullable r then Alt (Seq (deriv c r) s) (deriv c s) else Seq (deriv c r) s)"
| "deriv c (Star r) = Seq (deriv c r) (Star r)"

definition rx_test :: "rx \<Rightarrow> string \<Rightarrow> bool" where
  "rx_test r s = nullable (foldl (\<lambda>q c. deriv c q) r s)"

text \<open>\<open>r+\<close> is \<open>r r*\<close>, and \<open>r{2,}\<close> is \<open>r r r*\<close>.\<close>

definition Plus :: "rx \<Rightarrow> rx" where
  "Plus r = Seq r (Star r)"

definition AtLeast2 :: "rx \<Rightarrow> rx" where
  "AtLeast2 r = Seq r (Seq r (Star r))"

definition Chr :: "char \<Rightarrow> rx" where
  "Chr c = Cls False [Single c]"

section \<open>The verification route\<close>

subsection \<open>Pure checks\<close>

definition commonDomainTypos :: "(string \<times> string) list" where
  "commonDomainTypos =
    [(''gamil.com'', ''gmail.com''),
     (''gmial.com'', ''gmail.com''),
     (''gmai.com'', ''gmail.com''),
     (''gmal.com'', ''gmail.com''),
     (''hotmal.com'', ''hotmail.com''),
     (''hotmial.com'', ''hotmail.com''),
     (''hotmil.com'', ''hotmail.com''),
     (''outlok.com'', ''outlook.com''),
     (''outllok.com'', ''outlook.com''),
     (''yahho.com'', ''yahoo.com''),
     (''yaho.com'', ''yahoo.com'')]"

definition commonTldTypos :: "(string \<times> string) list" where
  "commonTldTypos =
    [(''con'', ''com''),
     (''cmo'', ''com''),
     (''ocm'', ''com''),
     (''om'', ''com''),
     (''nte'', ''net''),
     (''ogr'', ''org'')]"

definition suggestEmailCorrection :: "string \<Rightarrow> string option" where
  "suggestEmailCorrection email =
     (let parts = split_on CHR ''@'' email in
      if length parts \<noteq> 2 then None
      else
        let localPart = parts ! 0;
            domainPart = parts ! 1 in
        if truthy (js_get commonDomainTypos (toLowerCase domainPart))
        then Some (localPart @ ''@'' @ to_text (js_get commonDomainTypos (toLowerCase domainPart)))
        else
          let domainParts = split_on CHR ''.'' domainPart in
          if length domainParts \<ge> 2
          then
            let tld = last domainParts;
                mainDomain = join ''.'' (butlast domainParts) in
            if truthy (js_get commonTldTypos (toLowerCase tld))
            then Some (localPart @ ''@'' @ mainDomain @ ''.''
                        @ to_text (js_get commonTldTypos (toLowerCase tld)))
            else None
          else None)"

definition rolePrefixes :: "string list" where
  "rolePrefixes =
    [''admin'', ''administrator'', ''webmaster'', ''postmaster'', ''hostmaster'',
     ''support'', ''help'', ''contact'', ''info'', ''information'', ''sales'', ''marketing'',
     ''abuse'', ''security'', ''privacy'', ''legal'', ''billing'', ''hr'', ''jobs'',
     ''careers'', ''feedback'', ''media'', ''press'', ''noreply'', ''no-reply'',
     ''dev'', ''test'', ''demo'', ''office'', ''team'', ''hello'', ''mail'']"

definition isRoleBasedEmail :: "string \<Rightarrow> bool" where
  "isRoleBasedEmail email =
     (case nth_opt (split_on CHR ''@'' email) 0 of
        None \<Rightarrow> False
      | Some p \<Rightarrow>
          (let localPart = toLowerCase p in
           if localPart = [] then False
           else (\<exists>prefix \<in> set rolePrefixes. startsWith localPart prefix)))"

text \<open>The pattern \<open>/^[a-zA-Z0-9._%+-]+@[a-zA-Z0-9.-]+\.[a-zA-Z]{2,}$/\<close>.\<close>

definition emailRegex :: rx where
  "emailRegex =
     Seq (Plus (Cls False [Range CHR ''a'' CHR ''z'', Range CHR ''A'' CHR ''Z'',
                           Range CHR ''0'' CHR ''9'', Single CHR ''.'', Single CHR ''_'',
                           Single CHR ''%'', Single CHR ''+'', Single CHR ''-'']))
    (Seq (Chr CHR ''@'')
    (Seq (Plus (Cls False [Range CHR ''a'' CHR ''z'', Range CHR ''A'' CHR ''Z'',
                           Range CHR ''0'' CHR ''9'', Single CHR ''.'', Single CHR ''-'']))
    (Seq (Chr CHR ''.'')
         (AtLeast2 (Cls False [Range CHR ''a'' CHR ''z'', Range CHR ''A'' CHR ''Z''])))))"

definition isValidEmail :: "string \<Rightarrow> bool" where
  "isValidEmail email = rx_test emailRegex email"

definition disposableDomains :: "string list" where
  "disposableDomains =
    [''mailinator.com'', ''tempmail.com'', ''temp-mail.org'', ''guerrillamail.com'',
     ''throwawaymail.com'', ''10minutemail.com'', ''yopmail.com'', ''trashmail.com'',
     ''dispostable.com'', ''sharklasers.com'', ''grr.la'', ''guerrillamail.info'',
     ''fakeinbox.com'', ''mailnesia.com'', ''mailcatch.com'', ''tempr.email'',
     ''tempmail.net'', ''discard.email'', ''maildrop.cc'', ''getairmail.com'']"

definition isDisposableEmail :: "string \<Rightarrow> bool" where
  "isDisposableEmail email =
     (case nth_opt (split_on CHR ''@'' email) 1 of
        None \<Rightarrow> False
      | Some d \<Rightarrow> toLowerCase d \<in> set disposableDomains)"

subsection \<open>The error handler\<close>

datatype AWSErrorType =
  CREDENTIALS | PERMISSIONS | RESOURCE_NOT_FOUND | CONFIGURATION | NETWORK | THROTTLING | UNKNOWN

fun AWSErrorType_text :: "AWSErrorType \<Rightarrow> string" where
  "AWSErrorType_text CREDENTIALS = ''CREDENTIALS''"
| "AWSErrorType_text PERMISSIONS = ''PERMISSIONS''"
| "AWSErrorType_text RESOURCE_NOT_FOUND = ''RESOURCE_NOT_FOUND''"
| "AWSErrorType_text CONFIGURATION = ''CONFIGURATION''"
| "AWSErrorType_text NETWORK = ''NETWORK''"
| "AWSErrorType_text THROTTLING = ''THROTTLING''"
| "AWSErrorType_text UNKNOWN = ''UNKNOWN''"

record AWSErrorResponse =
  e_type :: AWSErrorType
  e_message :: string
  e_service :: string
  e_timestamp :: string

text \<open>
  \<open>handleAWSError\<close> classifies a thrown error by its \<open>name\<close>; the error is given here by
  that name, and the time of the call by \<open>now\<close>.
\<close>

definition handleAWSError :: "string \<Rightarrow> string \<Rightarrow> string \<Rightarrow> AWSErrorResponse" where
  "handleAWSError error_name service now =
     (let (type, message) =
        (if error_name = ''CredentialsProviderError'' \<or> error_name = ''InvalidAccessKeyId''
         then (CREDENTIALS, ''Invalid AWS credentials. Please check your access keys.'')
         else if error_name = ''AccessDenied'' \<or> error_name = ''UnauthorizedOperation''
         then (PERMISSIONS, ''Insufficient permissions to perform this operation.'')
         else if error_name = ''NoSuchBucket'' \<or> error_name = ''NoSuchKey''
                 \<or> error_name = ''ResourceNotFoundException''
         then (RESOURCE_NOT_FOUND, ''The requested AWS resource was not found.'')
         else if error_name = ''ValidationException'' \<or> error_name = ''InvalidParameter''
         then (CONFIGURATION, ''Invalid configuration for AWS service.'')
         else if error_name = ''NetworkingError'' \<or> error_name = ''TimeoutError''
         then (NETWORK, ''Network error when connecting to AWS services.'')
         else if error_name = ''ThrottlingException'' \<or> error_name = ''TooManyRequestsException''
         then (THROTTLING, ''Request was throttled by AWS. Please try again later.'')
         else (UNKNOWN, ''An unknown error occurred with AWS services''));
          message' =
        (if service = ''S3'' then message @ '' This may affect file storage and history features.''
         else if service = ''SES'' then message @ '' This may affect email verification features.''
         else if service = ''Athena'' then message @ '' This may affect bulk email lookup features.''
         else if service = ''DynamoDB'' then message @ '' This may affect caching and performance.''
         else message)
      in \<lparr> e_type = type, e_message = message', e_service = service, e_timestamp = now \<rparr>)"

subsection \<open>The request handler\<close>

text \<open>
  What the handler reads from outside is gathered in one record: the signed-in user (none
  when the request is not authenticated), the answer of the DNS resolver for a domain
  (\<open>None\<close> when the lookup rejects), whether creating the mail-service client throws (and
  the name of the error), whether the provider's send call resolves for an address, and the
  clock. Every call that leaves the process is written to a trace, in order.
\<close>

record env =
  userId :: "string option"
  resolveMx :: "string \<Rightarrow> (nat \<times> string) list option"
  initSESClient :: "string option"
  sesSend :: "string \<Rightarrow> bool"
  clock :: string

datatype call = ResolveMx string | InitSESClient | SesSend string

text \<open>
  A JSON response: the HTTP status and the keys of the body. A key that the returned
  object literal does not have is \<open>None\<close>. The \<open>suggestion\<close> key can be present with the
  value \<open>null\<close>, which is \<open>Some None\<close>.
\<close>

record details =
  d_format :: "bool option"
  d_domain :: "bool option"
  d_disposable :: "bool option"
  d_mxRecords :: "bool option"
  d_roleBased :: "bool option"
  d_verified :: "bool option"
  d_quality :: "string option"
  d_error :: "string option"
  d_errorType :: "string option"
  d_timestamp :: "string option"

record response =
  status :: nat
  r_error :: "string option"
  r_valid :: "bool option"
  r_message :: "string option"
  r_email :: "string option"
  r_isVerified :: "bool option"
  r_emailQuality :: "string option"
  r_suggestion :: "string option option"
  r_details :: "details option"
  r_verifiedAt :: "string option"
  r_confidence :: "string option"

definition no_details :: details where
  "no_details = \<lparr> d_format = None, d_domain = None, d_disposable = None, d_mxRecords = None,
     d_roleBased = None, d_verified = None, d_quality = None, d_error = None,
     d_errorType = None, d_timestamp = None \<rparr>"

definition json :: "nat \<Rightarrow> response" where
  "json st = \<lparr> status = st, r_error = None, r_valid = None, r_message = None, r_email = None,
     r_isVerified = None, r_emailQuality = None, r_suggestion = None, r_details = None,
     r_verifiedAt = None, r_confidence = None \<rparr>"

definition hasMxRecords :: "env \<Rightarrow> string \<Rightarrow> bool" where
  "hasMxRecords e domain =
     (case resolveMx e domain of
        Some records \<Rightarrow> length records > 0
      | None \<Rightarrow> False)"

definition verifyEmailWithSES :: "env \<Rightarrow> string \<Rightarrow> bool \<times> call list" where
  "verifyEmailWithSES e email =
     (if \<not> isValidEmail email then (False, [])
      else if sesSend e email then (True, [SesSend email])
      else (False, [SesSend email]))"

definition emailQuality_of :: "string \<Rightarrow> string" where
  "emailQuality_of domain =
     (if toLowerCase domain \<in> set [''gmail.com'', ''outlook.com'', ''hotmail.com'', ''yahoo.com'']
      then ''personal'' else ''business'')"

definition POST :: "env \<Rightarrow> string \<Rightarrow> response \<times> call list" where
  "POST e email =
    (case userId e of
       None \<Rightarrow> ((json 401) \<lparr> r_error := Some ''Unauthorized'' \<rparr>, [])
     | Some uid \<Rightarrow>
       if email = [] then
         ((json 400) \<lparr> r_valid := Some False, r_message := Some ''Email is required'' \<rparr>, [])
       else if \<not> isValidEmail email then
         ((json 200) \<lparr> r_valid := Some False,
            r_message := Some ''Invalid email format'',
            r_suggestion := Some (suggestEmailCorrection email),
            r_details := Some (no_details \<lparr> d_format := Some False, d_domain := Some False,
              d_disposable := Some False, d_mxRecords := Some False,
              d_roleBased := Some (isRoleBasedEmail email) \<rparr>) \<rparr>, [])
       else
         (case nth_opt (split_on CHR ''@'' email) 1 of
            None \<Rightarrow>
              ((json 200) \<lparr> r_valid := Some False,
                 r_message := Some ''Invalid email domain'',
                 r_details := Some (no_details \<lparr> d_format := Some True, d_domain := Some False,
                   d_disposable := Some False, d_mxRecords := Some False \<rparr>) \<rparr>, [])
          | Some domain \<Rightarrow>
              if domain = [] then
                ((json 200) \<lparr> r_valid := Some False,
                   r_message := Some ''Invalid email domain'',
                   r_details := Some (no_details \<lparr> d_format := Some True, d_domain := Some False,
                     d_disposable := Some False, d_mxRecords := Some False \<rparr>) \<rparr>, [])
              else
                let isDisposable = isDisposableEmail email;
                    isRole = isRoleBasedEmail email;
                    suggestion = suggestEmailCorrection email;
                    hasMx = hasMxRecords e domain;
                    emailQuality = emailQuality_of domain
                in
                if \<not> hasMx then
                  ((json 200) \<lparr> r_valid := Some False,
                     r_message := Some ''Email domain does not have valid mail servers'',
                     r_isVerified := Some False,
                     r_emailQuality := Some emailQuality,
                     r_suggestion := Some suggestion,
                     r_details := Some (no_details \<lparr> d_format := Some True, d_domain := Some True,
                       d_disposable := Some isDisposable, d_mxRecords := Some False,
                       d_roleBased := Some isRole \<rparr>) \<rparr>, [ResolveMx domain])
                else if isDisposable then
                  ((json 200) \<lparr> r_valid := Some False,
                     r_message := Some ''Disposable email addresses are not allowed'',
                     r_isVerified := Some False,
                     r_emailQuality := Some emailQuality,
                     r_suggestion := Some suggestion,
                     r_details := Some (no_details \<lparr> d_format := Some True, d_domain := Some True,
                       d_disposable := Some True, d_mxRecords := Some hasMx,
                       d_roleBased := Some isRole \<rparr>) \<rparr>, [ResolveMx domain])
                else
                  (case initSESClient e of
                     Some error_name \<Rightarrow>
                       (let handledError = handleAWSError error_name ''SES'' (clock e) in
                        ((json 500) \<lparr> r_valid := Some False,
                           r_message := Some ''An error occurred while verifying the email'',
                           r_details := Some (no_details \<lparr>
                             d_error := Some (e_message handledError),
                             d_errorType := Some (AWSErrorType_text (e_type handledError)),
                             d_timestamp := Some (e_timestamp handledError),
                             d_format := Some (isValidEmail email),
                             d_roleBased := Some (isRoleBasedEmail email) \<rparr>) \<rparr>,
                         [ResolveMx domain, InitSESClient]))
                   | None \<Rightarrow>
                       (let (isVerified, sent) = verifyEmailWithSES e email;
                            isValid = (isVerified \<and> \<not> isDisposable);
                            message =
                              (if isValid then ''Email appears to be valid and deliverable''
                               else if isDisposable
                               then ''Email appears to be from a disposable domain''
                               else if \<not> isVerified
                               then ''Email verification failed. The email address may not exist or may be unreachable.''
                               else [])
                        in
                        ((json 200) \<lparr> r_valid := Some isValid,
                           r_message := Some message,
                           r_email := Some email,
                           r_isVerified := Some isVerified,
                           r_emailQuality := Some emailQuality,
                           r_suggestion := Some suggestion,
                           r_details := Some (no_details \<lparr> d_format := Some True,
                             d_domain := Some True, d_disposable := Some isDisposable,
                             d_mxRecords := Some hasMx, d_verified := Some isVerified,
                             d_quality := Some emailQuality, d_roleBased := Some isRole \<rparr>),
                           r_verifiedAt := Some (clock e),
                           r_confidence := Some (if isVerified then ''high''
                                                 else (if hasMx then ''medium'' else ''low'')) \<rparr>,
                         [ResolveMx domain, InitSESClient] @ sent)))))"

section \<open>The earlier verification route\<close>

text \<open>
  The second entry point has its own pattern, \<open>/^[^\s@]+@[^\s@]+\.[^\s@]+$/\<close>, goes to
  the provider directly, and classifies the domain afterwards, comparing it as it was
  typed. In its error envelope \<open>details\<close> is the message text.
\<close>

definition emailRegex_002 :: rx where
  "emailRegex_002 =
     Seq (Plus (Cls True [Space, Single CHR ''@'']))
    (Seq (Chr CHR ''@'')
    (Seq (Plus (Cls True [Space, Single CHR ''@'']))
    (Seq (Chr CHR ''.'')
         (Plus (Cls True [Space, Single CHR ''@''])))))"

definition isValidEmail_002 :: "string \<Rightarrow> bool" where
  "isValidEmail_002 email = rx_test emailRegex_002 email"

definition verifyEmailWithSES_002 :: "env \<Rightarrow> string \<Rightarrow> bool \<times> call list" where
  "verifyEmailWithSES_002 e email =
     (if \<not> isValidEmail_002 email then (False, [])
      else if sesSend e email then (True, [SesSend email])
      else (False, [SesSend email]))"

record response_002 =
  q_status :: nat
  q_error :: "string option"
  q_email :: "string option"
  q_isVerified :: "bool option"
  q_emailQuality :: "string option option"
  q_verifiedAt :: "string option"
  q_details :: "string option"
  q_errorType :: "string option"
  q_timestamp :: "string option"

definition json_002 :: "nat \<Rightarrow> response_002" where
  "json_002 st = \<lparr> q_status = st, q_error = None, q_email = None, q_isVerified = None,
     q_emailQuality = None, q_verifiedAt = None, q_details = None, q_errorType = None,
     q_timestamp = None \<rparr>"

definition emailQuality_of_002 :: "string option \<Rightarrow> string option" where
  "emailQuality_of_002 domain =
     (case domain of
        None \<Rightarrow> None
      | Some d \<Rightarrow>
          if d = [] then None
          else if d \<in> set [''gmail.com'', ''outlook.com'', ''hotmail.com'', ''yahoo.com'']
          then Some ''personal''
          else Some ''business'')"

definition POST_002 :: "env \<Rightarrow> string \<Rightarrow> response_002 \<times> call list" where
  "POST_002 e email =
    (case userId e of
       None \<Rightarrow> ((json_002 401) \<lparr> q_error := Some ''Unauthorized'' \<rparr>, [])
     | Some uid \<Rightarrow>
       if email = [] then ((json_002 400) \<lparr> q_error := Some ''Email is required'' \<rparr>, [])
       else if \<not> isValidEmail_002 email then
         ((json_002 400) \<lparr> q_error := Some ''Invalid email format'' \<rparr>, [])
       else
         (case initSESClient e of
            Some error_name \<Rightarrow>
              (let handledError = handleAWSError error_name ''SES'' (clock e) in
               ((json_002 500) \<lparr> q_error := Some ''An error occurred while verifying the email'',
                  q_details := Some (e_message handledError),
                  q_errorType := Some (AWSErrorType_text (e_type handledError)),
                  q_timestamp := Some (e_timestamp handledError) \<rparr>,
                [InitSESClient]))
          | None \<Rightarrow>
              (let (isVerified, sent) = verifyEmailWithSES_002 e email;
                   emailQuality = emailQuality_of_002 (nth_opt (split_on CHR ''@'' email) 1)
               in
               ((json_002 200) \<lparr> q_email := Some email,
                  q_isVerified := Some isVerified,
                  q_emailQuality := Some emailQuality,
                  q_verifiedAt := Some (clock e) \<rparr>,
                [InitSESClient] @ sent))))"

section \<open>The bulk results component\<close>

text \<open>
  An optional, nullable field of a record or of a parsed JSON body has three kinds of
  value: not there, \<open>null\<close>, or a value.
\<close>

datatype 'a js = Undefined | Null | Val 'a

record BulkResultRecord =
  firstName :: string
  lastName :: string
  linkedin :: string
  companyName :: string
  foundEmail :: "string option"
  personalEmails :: "string list option"
  isVerified :: "bool js"
  emailQuality :: "string js"
  retryCount :: "nat option"
  lastRetry :: "nat option"

text \<open>
  A \<open>fetch\<close> followed by \<open>response.json()\<close> either throws (the request fails or the
  body is not JSON), or gives the \<open>ok\<close> flag of the status and the parsed body.
\<close>

datatype 'a fetched = Rejected | Answered bool 'a

record verify_data =
  v_isVerified :: "bool js"
  v_emailQuality :: "string js"

record find_data =
  f_email :: "string js"
  f_personalEmails :: "string list option"

text \<open>Truthiness of a nullable string: \<open>null\<close>, \<open>undefined\<close> and \<open>""\<close> are falsy.\<close>

fun truthy_opt :: "string option \<Rightarrow> bool" where
  "truthy_opt None = False"
| "truthy_opt (Some s) = (s \<noteq> [])"

fun truthy_js :: "string js \<Rightarrow> bool" where
  "truthy_js (Val s) = (s \<noteq> [])"
| "truthy_js Undefined = False"
| "truthy_js Null = False"

text \<open>\<open>xs.findIndex(p)\<close>, with \<open>None\<close> for \<open>-1\<close>.\<close>

fun findIndex :: "('a \<Rightarrow> bool) \<Rightarrow> 'a list \<Rightarrow> nat option" where
  "findIndex p [] = None"
| "findIndex p (x # xs) =
     (if p x then Some 0 else map_option Suc (findIndex p xs))"

subsection \<open>Verifying a whole batch\<close>

text \<open>
  The selection keeps the records with a truthy \<open>foundEmail\<close> whose \<open>isVerified\<close> is
  \<open>undefined\<close>, and maps them to that address (which the filter has shown to be there).
\<close>

definition emailsToVerify :: "BulkResultRecord list \<Rightarrow> string list" where
  "emailsToVerify results =
     map (\<lambda>record. the (foundEmail record))
       (filter (\<lambda>record. truthy_opt (foundEmail record) \<and> isVerified record = Undefined) results)"

text \<open>
  The state of the loop: the working copy, the two counters, every list handed to
  \<open>setResults\<close> so far (oldest first), and the addresses sent to the verification route so
  far. The answer to the request of round \<open>i\<close> for an address is \<open>fetch i address\<close>.
\<close>

record batch =
  updatedResults :: "BulkResultRecord list"
  verifiedCount :: nat
  failedCount :: nat
  published :: "BulkResultRecord list list"
  requested :: "string list"

definition verify_round ::
  "nat \<Rightarrow> verify_data fetched \<Rightarrow> string \<Rightarrow> batch \<Rightarrow> batch" where
  "verify_round recordIndex answer email b =
     (let b = b \<lparr> requested := requested b @ [email] \<rparr> in
      case answer of
        Rejected \<Rightarrow> b \<lparr> failedCount := failedCount b + 1 \<rparr>
      | Answered ok data \<Rightarrow>
          if ok then
            (let old = updatedResults b ! recordIndex;
                 b = b \<lparr> updatedResults := (updatedResults b)[recordIndex :=
                        old \<lparr> isVerified := v_isVerified data,
                              emailQuality := (if truthy_js (v_emailQuality data)
                                               then v_emailQuality data
                                               else emailQuality old) \<rparr>] \<rparr>
             in if v_isVerified data = Val True
                then b \<lparr> verifiedCount := verifiedCount b + 1 \<rparr>
                else b \<lparr> failedCount := failedCount b + 1 \<rparr>)
          else b \<lparr> failedCount := failedCount b + 1 \<rparr>)"

fun verify_loop ::
  "(nat \<Rightarrow> string \<Rightarrow> verify_data fetched) \<Rightarrow> BulkResultRecord list \<Rightarrow> nat \<Rightarrow> nat
     \<Rightarrow> string list \<Rightarrow> batch \<Rightarrow> batch" where
  "verify_loop fetch results n i [] b = b"
| "verify_loop fetch results n i (email # rest) b =
     (case findIndex (\<lambda>r. foundEmail r = Some email) results of
        None \<Rightarrow> verify_loop fetch results n (Suc i) rest b
      | Some recordIndex \<Rightarrow>
          (let b = verify_round recordIndex (fetch i email) email b;
               b = (if i mod 5 = 0 \<or> i = n - 1
                    then b \<lparr> published := published b @ [updatedResults b] \<rparr>
                    else b)
           in verify_loop fetch results n (Suc i) rest b))"

text \<open>
  \<open>verifyAllEmails\<close> returns early, doing nothing, when there are no results or nothing
  is selected (\<open>None\<close> below). Otherwise it runs the loop over the selected addresses and
  hands the working copy to \<open>setResults\<close> once more after the loop.
\<close>

definition verifyAllEmails ::
  "(nat \<Rightarrow> string \<Rightarrow> verify_data fetched) \<Rightarrow> BulkResultRecord list option \<Rightarrow> batch option" where
  "verifyAllEmails fetch results_opt =
     (case results_opt of
        None \<Rightarrow> None
      | Some results \<Rightarrow>
          if results = [] then None
          else
            let emails = emailsToVerify results in
            if emails = [] then None
            else
              let b = verify_loop fetch results (length emails) 0 emails
                        \<lparr> updatedResults = results, verifiedCount = 0, failedCount = 0,
                          published = [], requested = [] \<rparr>
              in Some (b \<lparr> published := published b @ [updatedResults b] \<rparr>))"

subsection \<open>Retrying one record\<close>

text \<open>
  What a handler did with \<open>setResults\<close>: nothing, a call with a new list, or a call with an
  array that a write past its end has extended (the new element then has none of the
  identity fields, so it is no list of records).
\<close>

datatype set_call = NotCalled | Called "BulkResultRecord list" | CalledSparse

definition retryFindEmail ::
  "BulkResultRecord list option \<Rightarrow> BulkResultRecord \<Rightarrow> nat \<Rightarrow> find_data fetched \<Rightarrow> nat
     \<Rightarrow> set_call" where
  "retryFindEmail results_opt record index answer now =
     (case answer of
        Rejected \<Rightarrow> NotCalled
      | Answered ok data \<Rightarrow>
          (case results_opt of
             None \<Rightarrow> NotCalled
           | Some results \<Rightarrow>
               if \<not> ok then NotCalled
               else if index < length results then
                 Called (results[index := (results ! index)
                   \<lparr> foundEmail := (if truthy_js (f_email data)
                                    then (case f_email data of Val s \<Rightarrow> Some s | _ \<Rightarrow> None)
                                    else None),
                     personalEmails := Some (case f_personalEmails data of
                                               Some ps \<Rightarrow> ps | None \<Rightarrow> []),
                     isVerified := Undefined,
                     emailQuality := Undefined,
                     retryCount := Some ((case retryCount record of
                                            None \<Rightarrow> 0 | Some c \<Rightarrow> c) + 1),
                     lastRetry := Some now \<rparr>])
               else CalledSparse))"

subsection \<open>The rows on screen\<close>

datatype filter_status = FilterAll | FilterVerified | FilterUnverified | FilterNotFound

definition filteredResults ::
  "BulkResultRecord list option \<Rightarrow> filter_status \<Rightarrow> string \<Rightarrow> BulkResultRecord list" where
  "filteredResults results_opt filterStatus searchTerm =
     (case results_opt of
        None \<Rightarrow> []
      | Some results \<Rightarrow>
          filter (\<lambda>record.
            if filterStatus = FilterVerified \<and> isVerified record \<noteq> Val True then False
            else if filterStatus = FilterUnverified \<and> isVerified record \<noteq> Val False then False
            else if filterStatus = FilterNotFound \<and> truthy_opt (foundEmail record) then False
            else if searchTerm \<noteq> [] then
              (let search = toLowerCase searchTerm in
                 includes_str (toLowerCase (firstName record)) search
               \<or> includes_str (toLowerCase (lastName record)) search
               \<or> includes_str (toLowerCase (companyName record)) search
               \<or> (case foundEmail record of
                     None \<Rightarrow> False
                   | Some a \<Rightarrow> includes_str (toLowerCase a) search)
               \<or> (case personalEmails record of
                     None \<Rightarrow> False
                   | Some ps \<Rightarrow> (\<exists>email \<in> set ps. includes_str (toLowerCase email) search)))
            else True) results)"

text \<open>
  The table draws one row for each element of \<open>filteredResults()\<close>, and the Retry button
  of a row calls \<open>retryFindEmail(record, index)\<close> with the row's record and the row's
  position in the filtered list.
\<close>

definition retry_row ::
  "BulkResultRecord list option \<Rightarrow> filter_status \<Rightarrow> string \<Rightarrow> nat \<Rightarrow> find_data fetched \<Rightarrow> nat
     \<Rightarrow> set_call" where
  "retry_row results_opt filterStatus searchTerm index answer now =
     (case nth_opt (filteredResults results_opt filterStatus searchTerm) index of
        None \<Rightarrow> NotCalled
      | Some record \<Rightarrow> retryFindEmail results_opt record index answer now)"

section \<open>Notions used in the statements\<close>

text \<open>
  Only the last \<open>return\<close> of the handler, reached after the provider has been asked,
  writes \<open>verifiedAt\<close>; a response with that key is a full-pipeline response.
\<close>

definition full_pipeline :: "response \<Rightarrow> bool" where
  "full_pipeline r = (r_verifiedAt r \<noteq> None)"

text \<open>
  Three kinds of answer to a verification request of the batch: it threw; it confirmed
  the address (an \<open>ok\<close> status and \<open>isVerified\<close> true); anything but a confirmation.
\<close>

fun thrown :: "verify_data fetched \<Rightarrow> bool" where
  "thrown Rejected = True"
| "thrown (Answered ok data) = False"

fun confirmed :: "verify_data fetched \<Rightarrow> bool" where
  "confirmed Rejected = False"
| "confirmed (Answered ok data) = (ok \<and> v_isVerified data = Val True)"

fun unconfirmed :: "verify_data fetched \<Rightarrow> bool" where
  "unconfirmed Rejected = True"
| "unconfirmed (Answered ok data) = (\<not> ok \<or> v_isVerified data \<noteq> Val True)"

text \<open>
  \<open>count_from P fetch i emails\<close> is the number of rounds, numbered from \<open>i\<close>, one for
  each address of \<open>emails\<close> in order, whose answer satisfies \<open>P\<close>.
\<close>

fun count_from ::
  "(verify_data fetched \<Rightarrow> bool) \<Rightarrow> (nat \<Rightarrow> string \<Rightarrow> verify_data fetched) \<Rightarrow> nat
     \<Rightarrow> string list \<Rightarrow> nat" where
  "count_from P fetch i [] = 0"
| "count_from P fetch i (email # rest) =
     (if P (fetch i email) then 1 else 0) + count_from P fetch (Suc i) rest"

text \<open>
  The language of a pattern, as a set of strings, against which the matcher is checked.
\<close>

inductive_set star :: "string set \<Rightarrow> string set" for A :: "string set" where
  star_empty: "[] \<in> star A"
| star_more: "u \<in> A \<Longrightarrow> v \<in> star A \<Longrightarrow> u @ v \<in> star A"

fun lang :: "rx \<Rightarrow> string set" where
  "lang Zero = {}"
| "lang One = {[]}"
| "lang (Cls neg items) = {[c] | c. in_class neg items c}"
| "lang (Alt r s) = lang r \<union> lang s"
| "lang (Seq r s) = {u @ v | u v. u \<in> lang r \<and> v \<in> lang s}"
| "lang (Star r) = star (lang r)"

text \<open>
  The suggester as the specification words it, for an address \<open>localPart@domain\<close>: the
  two dictionaries are finite tables, the domain table is tried first, then the table of
  top-level domains on the last of at least two labels.
\<close>

definition suggest_table :: "string \<Rightarrow> string \<Rightarrow> string option" where
  "suggest_table localPart domain =
     (case map_of commonDomainTypos (toLowerCase domain) of
        Some fixed \<Rightarrow> Some (localPart @ ''@'' @ fixed)
      | None \<Rightarrow>
          (let labels = split_on CHR ''.'' domain in
           if length labels \<ge> 2 then
             (case map_of commonTldTypos (toLowerCase (last labels)) of
                Some tld \<Rightarrow>
                  Some (localPart @ ''@'' @ join ''.'' (butlast labels) @ ''.'' @ tld)
              | None \<Rightarrow> None)
           else None))"

definition is_upper :: "char \<Rightarrow> bool" where
  "is_upper c = (65 \<le> (of_char c :: nat) \<and> (of_char c :: nat) \<le> 90)"

text \<open>
  A record is selected by the batch when it has a truthy address and has not been
  checked. A list has distinct addresses when no two of its records with a truthy
  address hold the same one.
\<close>

definition selected :: "BulkResultRecord \<Rightarrow> bool" where
  "selected record = (truthy_opt (foundEmail record) \<and> isVerified record = Undefined)"

definition distinct_addresses :: "BulkResultRecord list \<Rightarrow> bool" where
  "distinct_addresses results =
     distinct (map foundEmail (filter (\<lambda>record. truthy_opt (foundEmail record)) results))"

text \<open>
  What one answer does to one record: an answer with an \<open>ok\<close> status sets \<open>isVerified\<close>
  to the answer's, and \<open>emailQuality\<close> to the answer's when that is truthy; a thrown
  request or another status leaves the record as it was.
\<close>

definition apply_answer :: "verify_data fetched \<Rightarrow> BulkResultRecord \<Rightarrow> BulkResultRecord" where
  "apply_answer answer record =
     (case answer of
        Rejected \<Rightarrow> record
      | Answered ok data \<Rightarrow>
          if ok then record \<lparr> isVerified := v_isVerified data,
                            emailQuality := (if truthy_js (v_emailQuality data)
                                             then v_emailQuality data
                                             else emailQuality record) \<rparr>
          else record)"

text \<open>
  Processing a list record by record: the selected records are numbered in order from
  \<open>i\<close>, each receives the answer of the round of its number for its own address, and
  the other records are kept.
\<close>

fun process_all ::
  "(nat \<Rightarrow> string \<Rightarrow> verify_data fetched) \<Rightarrow> nat \<Rightarrow> BulkResultRecord list
     \<Rightarrow> BulkResultRecord list" where
  "process_all fetch i [] = []"
| "process_all fetch i (record # rest) =
     (if selected record
      then apply_answer (fetch i (the (foundEmail record))) record # process_all fetch (Suc i) rest
      else record # process_all fetch i rest)"

text \<open>
  The answer given for an address among the rounds for \<open>emails\<close>, numbered from \<open>i\<close>
  (the first round for that address), and the same for the address of a record.
\<close>

fun round_answer ::
  "(nat \<Rightarrow> string \<Rightarrow> verify_data fetched) \<Rightarrow> nat \<Rightarrow> string list \<Rightarrow> string
     \<Rightarrow> verify_data fetched option" where
  "round_answer fetch i [] address = None"
| "round_answer fetch i (email # rest) address =
     (if email = address then Some (fetch i email) else round_answer fetch (Suc i) rest address)"

definition answer_at ::
  "(nat \<Rightarrow> string \<Rightarrow> verify_data fetched) \<Rightarrow> nat \<Rightarrow> string list \<Rightarrow> BulkResultRecord
     \<Rightarrow> verify_data fetched option" where
  "answer_at fetch i emails record =
     (case foundEmail record of None \<Rightarrow> None | Some address \<Rightarrow> round_answer fetch i emails address)"

text \<open>
  The number of rounds among \<open>m\<close> rounds numbered from \<open>i\<close>, of a batch of \<open>n\<close>, after
  which the loop publishes: every fifth round, starting with the first, and the last.
\<close>

fun checkpoints_from :: "nat \<Rightarrow> nat \<Rightarrow> nat \<Rightarrow> nat" where
  "checkpoints_from n i 0 = 0"
| "checkpoints_from n i (Suc m) =
     (if i mod 5 = 0 \<or> i = n - 1 then 1 else 0) + checkpoints_from n (Suc i) m"

section \<open>Sample inputs\<close>

definition env_live :: env where
  "env_live = \<lparr> userId = Some ''user_1'',
     resolveMx = (\<lambda>domain. Some [(10, ''mx.example.com'')]),
     initSESClient = None,
     sesSend = (\<lambda>address. True),
     clock = ''2025-01-01T00:00:00.000Z'' \<rparr>"

definition env_unconfirmed :: env where
  "env_unconfirmed = env_live \<lparr> sesSend := (\<lambda>address. False) \<rparr>"

definition env_no_mx :: env where
  "env_no_mx = env_live \<lparr> resolveMx := (\<lambda>domain. Some []) \<rparr>"

definition rec_ada :: BulkResultRecord where
  "rec_ada = \<lparr> firstName = ''Ada'', lastName = ''Lovelace'', linkedin = ''in/ada'',
     companyName = ''Analytical Engines'', foundEmail = Some ''office@example.com'',
     personalEmails = None, isVerified = Val False, emailQuality = Val ''business'',
     retryCount = Some 2, lastRetry = Some 1000 \<rparr>"

definition rec_bob :: BulkResultRecord where
  "rec_bob = \<lparr> firstName = ''Bob'', lastName = ''Babbage'', linkedin = ''in/bob'',
     companyName = ''Analytical Engines'', foundEmail = Some ''office@example.com'',
     personalEmails = None, isVerified = Undefined, emailQuality = Undefined,
     retryCount = None, lastRetry = None \<rparr>"

definition rec_cy :: BulkResultRecord where
  "rec_cy = \<lparr> firstName = ''Cy'', lastName = ''Young'', linkedin = ''in/cy'',
     companyName = ''Difference Ltd'', foundEmail = None,
     personalEmails = None, isVerified = Undefined, emailQuality = Undefined,
     retryCount = None, lastRetry = None \<rparr>"

definition rec_di :: BulkResultRecord where
  "rec_di = \<lparr> firstName = ''Di'', lastName = ''Xu'', linkedin = ''in/di'',
     companyName = ''Difference Ltd'', foundEmail = Some ''di@example.org'',
     personalEmails = Some [], isVerified = Undefined, emailQuality = Undefined,
     retryCount = None, lastRetry = None \<rparr>"

definition fetch_confirms :: "nat \<Rightarrow> string \<Rightarrow> verify_data fetched" where
  "fetch_confirms i address =
     Answered True \<lparr> v_isVerified = Val True, v_emailQuality = Val ''business'' \<rparr>"

definition fetch_denies :: "nat \<Rightarrow> string \<Rightarrow> verify_data fetched" where
  "fetch_denies i address =
     Answered True \<lparr> v_isVerified = Val False, v_emailQuality = Val ''business'' \<rparr>"

definition fetch_flaky :: "nat \<Rightarrow> string \<Rightarrow> verify_data fetched" where
  "fetch_flaky i address =
     (if i = 0 then Rejected
      else Answered True \<lparr> v_isVerified = Val True, v_emailQuality = Val ''business'' \<rparr>)"

definition answer_found :: "find_data fetched" where
  "answer_found =
     Answered True \<lparr> f_email = Val ''cy@example.org'', f_personalEmails = Some [] \<rparr>"

definition answer_refused :: "find_data fetched" where
  "answer_refused =
     Answered False \<lparr> f_email = Undefined, f_personalEmails = None \<rparr>"

section \<open>The matcher decides the language of a pattern\<close>

lemma nullable_lang: "nullable r \<longleftrightarrow> [] \<in> lang r"
  by (induction r) (auto intro: star_empty)

lemma star_cons_iff:
  "c # w \<in> star A \<longleftrightarrow> (\<exists>u v. w = u @ v \<and> c # u \<in> A \<and> v \<in> star A)"
proof
  assume "c # w \<in> star A"
  then show "\<exists>u v. w = u @ v \<and> c # u \<in> A \<and> v \<in> star A"
  proof (induction "c # w" arbitrary: w rule: star.induct)
    case (star_more u v)
    show ?case
    proof (cases u)
      case Nil
      with star_more show ?thesis by simp
    next
      case (Cons a u')
      with star_more.hyps(1,2,4) show ?thesis by auto
    qed
  qed
next
  assume "\<exists>u v. w = u @ v \<and> c # u \<in> A \<and> v \<in> star A"
  then obtain u v where "w = u @ v" "c # u \<in> A" "v \<in> star A" by blast
  then show "c # w \<in> star A" using star_more [of "c # u" A v] by simp
qed

lemma deriv_lang: "w \<in> lang (deriv c r) \<longleftrightarrow> c # w \<in> lang r"
proof (induction r arbitrary: w)
  case (Seq r s)
  show ?case
  proof
    assume "w \<in> lang (deriv c (Seq r s))"
    then consider (left) u v where "w = u @ v" "u \<in> lang (deriv c r)" "v \<in> lang s"
      | (right) "nullable r" "w \<in> lang (deriv c s)"
      by (auto split: if_splits)
    then show "c # w \<in> lang (Seq r s)"
    proof cases
      case left
      then have "c # u \<in> lang r" using Seq.IH(1) by simp
      with left show ?thesis by (auto intro: exI [of _ "c # u"])
    next
      case right
      then have "[] \<in> lang r" "c # w \<in> lang s"
        using Seq.IH(2) by (simp_all add: nullable_lang)
      then show ?thesis by (auto intro: exI [of _ "[]"])
    qed
  next
    assume "c # w \<in> lang (Seq r s)"
    then obtain u v where uv: "c # w = u @ v" "u \<in> lang r" "v \<in> lang s" by auto
    show "w \<in> lang (deriv c (Seq r s))"
    proof (cases u)
      case Nil
      with uv have "nullable r" "w \<in> lang (deriv c s)"
        using Seq.IH(2) by (simp_all add: nullable_lang)
      then show ?thesis by simp
    next
      case (Cons a u')
      with uv have "u' \<in> lang (deriv c r)" "w = u' @ v"
        using Seq.IH(1) by simp_all
      with uv(3) show ?thesis by auto
    qed
  qed
next
  case (Star r)
  then show ?case by (auto simp: star_cons_iff)
qed auto

lemma rx_test_lang: "rx_test r s \<longleftrightarrow> s \<in> lang r"
  unfolding rx_test_def
  by (induction s arbitrary: r) (simp_all add: nullable_lang deriv_lang)

lemma star_class:
  "w \<in> star {[c] | c. P c} \<Longrightarrow> (\<forall>c \<in> set w. P c)"
  by (induction rule: star.induct) auto

lemma lang_Plus_class:
  assumes "w \<in> lang (Plus (Cls neg items))"
  shows "w \<noteq> [] \<and> (\<forall>c \<in> set w. in_class neg items c)"
proof -
  from assms obtain c v where w: "w = c # v" "in_class neg items c"
      "v \<in> star {[c] | c. in_class neg items c}"
    by (auto simp: Plus_def)
  from star_class [of v "in_class neg items"] w(3)
  have "\<forall>c \<in> set v. in_class neg items c" by simp
  with w(1,2) show ?thesis by simp
qed

section \<open>Splitting an address\<close>

lemma split_on_no_sep: "sep \<notin> set w \<Longrightarrow> split_on sep w = [w]"
  by (induction w) auto

lemma split_on_at_sep:
  "sep \<notin> set l \<Longrightarrow> split_on sep (l @ sep # rest) = l # split_on sep rest"
  by (induction l) auto

lemma nth_opt_nth: "nth_opt xs i = (if i < length xs then Some (xs ! i) else None)"
  by (induction xs i rule: nth_opt.induct) auto

lemma no_at_local:
  "\<not> in_class False [Range CHR ''a'' CHR ''z'', Range CHR ''A'' CHR ''Z'',
      Range CHR ''0'' CHR ''9'', Single CHR ''.'', Single CHR ''_'',
      Single CHR ''%'', Single CHR ''+'', Single CHR ''-''] CHR ''@''"
  by code_simp

lemma no_at_domain:
  "\<not> in_class False [Range CHR ''a'' CHR ''z'', Range CHR ''A'' CHR ''Z'',
      Range CHR ''0'' CHR ''9'', Single CHR ''.'', Single CHR ''-''] CHR ''@''"
  by code_simp

lemma no_at_letters:
  "\<not> in_class False [Range CHR ''a'' CHR ''z'', Range CHR ''A'' CHR ''Z''] CHR ''@''"
  by code_simp

text \<open>
  An address that passes the syntax check has exactly one \<open>@\<close>, with something on both
  sides of it, so \<open>email.split('@')\<close> has two elements and the second, the domain, is
  not empty.
\<close>

lemma valid_email_parts:
  assumes "isValidEmail email"
  shows "\<exists>localPart domain. email = localPart @ ''@'' @ domain
     \<and> localPart \<noteq> [] \<and> domain \<noteq> []
     \<and> CHR ''@'' \<notin> set localPart \<and> CHR ''@'' \<notin> set domain
     \<and> split_on CHR ''@'' email = [localPart, domain]"
proof -
  let ?L = "Cls False [Range CHR ''a'' CHR ''z'', Range CHR ''A'' CHR ''Z'',
      Range CHR ''0'' CHR ''9'', Single CHR ''.'', Single CHR ''_'',
      Single CHR ''%'', Single CHR ''+'', Single CHR ''-'']"
  let ?D = "Cls False [Range CHR ''a'' CHR ''z'', Range CHR ''A'' CHR ''Z'',
      Range CHR ''0'' CHR ''9'', Single CHR ''.'', Single CHR ''-'']"
  let ?T = "Cls False [Range CHR ''a'' CHR ''z'', Range CHR ''A'' CHR ''Z'']"
  from assms have "email \<in> lang emailRegex"
    by (simp add: isValidEmail_def rx_test_lang)
  then obtain l d t where parts: "email = l @ ''@'' @ d @ ''.'' @ t"
      "l \<in> lang (Plus ?L)" "d \<in> lang (Plus ?D)" "t \<in> lang (AtLeast2 ?T)"
    by (auto simp: emailRegex_def Chr_def in_class_def)
  from parts(2) have l: "l \<noteq> []" "CHR ''@'' \<notin> set l"
    using lang_Plus_class [of l False] no_at_local by auto
  from parts(3) have d: "CHR ''@'' \<notin> set d"
    using lang_Plus_class [of d False] no_at_domain by auto
  from parts(4) obtain c1 c2 rest where t: "t = c1 # c2 # rest"
      "in_class False [Range CHR ''a'' CHR ''z'', Range CHR ''A'' CHR ''Z''] c1"
      "in_class False [Range CHR ''a'' CHR ''z'', Range CHR ''A'' CHR ''Z''] c2"
      "rest \<in> star (lang ?T)"
    by (auto simp: AtLeast2_def)
  from t(4)
  have "\<forall>c \<in> set rest. in_class False [Range CHR ''a'' CHR ''z'', Range CHR ''A'' CHR ''Z''] c"
    using star_class [of rest
        "in_class False [Range CHR ''a'' CHR ''z'', Range CHR ''A'' CHR ''Z'']"]
    by simp
  with t(1,2,3) have tt: "CHR ''@'' \<notin> set t"
    using no_at_letters by auto
  let ?dom = "d @ ''.'' @ t"
  from d tt have dom: "CHR ''@'' \<notin> set ?dom" "?dom \<noteq> []" by auto
  have "split_on CHR ''@'' email = [l, ?dom]"
    using parts(1) l(2) dom(1) by (simp add: split_on_at_sep split_on_no_sep)
  with parts(1) l dom show ?thesis by (intro exI [of _ l] exI [of _ ?dom]) simp
qed

lemma valid_email_has_domain:
  "isValidEmail email
     \<Longrightarrow> \<exists>domain. nth_opt (split_on CHR ''@'' email) 1 = Some domain \<and> domain \<noteq> []"
  using valid_email_parts [of email] by auto

section \<open>Properties of the verification route\<close>

subsection \<open>The confidence label\<close>

text \<open>
  Every response of the handler either has neither \<open>verifiedAt\<close> nor \<open>confidence\<close>, or
  it is the full-pipeline response, which reports an MX record and carries \<open>high\<close> for a
  confirmed address and \<open>medium\<close> otherwise.
\<close>

lemma POST_shape:
  "(r_verifiedAt (fst (POST e email)) = None \<and> r_confidence (fst (POST e email)) = None)
   \<or> (\<exists>v d. r_verifiedAt (fst (POST e email)) \<noteq> None
         \<and> r_isVerified (fst (POST e email)) = Some v
         \<and> r_details (fst (POST e email)) = Some d
         \<and> d_mxRecords d = Some True
         \<and> r_confidence (fst (POST e email)) = Some (if v then ''high'' else ''medium''))"
proof (cases "userId e")
  case None
  then show ?thesis by (simp add: POST_def json_def)
next
  case uid: (Some u)
  show ?thesis
  proof (cases "email = [] \<or> \<not> isValidEmail email")
    case True
    with uid show ?thesis by (auto simp: POST_def json_def)
  next
    case ok: False
    show ?thesis
    proof (cases "nth_opt (split_on CHR ''@'' email) 1")
      case None
      with uid ok show ?thesis by (simp add: POST_def json_def)
    next
      case dom: (Some domain)
      show ?thesis
      proof (cases "domain = [] \<or> \<not> hasMxRecords e domain \<or> isDisposableEmail email")
        case True
        with uid ok dom show ?thesis by (auto simp: POST_def json_def Let_def)
      next
        case go: False
        show ?thesis
        proof (cases "initSESClient e")
          case (Some err)
          with uid ok dom go show ?thesis by (simp add: POST_def json_def Let_def)
        next
          case init: None
          obtain v sent where ses: "verifyEmailWithSES e email = (v, sent)"
            by (cases "verifyEmailWithSES e email")
          with uid ok dom go init show ?thesis
            by (simp add: POST_def json_def Let_def no_details_def)
        qed
      qed
    qed
  qed
qed

text \<open>
  C1. Whatever the request, a full-pipeline response reports \<open>isVerified\<close> and
  \<open>details.mxRecords\<close>, and its confidence is \<open>high\<close> when \<open>isVerified\<close> is true,
  \<open>medium\<close> when \<open>isVerified\<close> is false and \<open>mxRecords\<close> is true, and \<open>low\<close> when
  \<open>mxRecords\<close> is false; the two rows of the table that could disagree (verified, but no
  MX record) never meet. Every other response has no confidence key, so no response
  carries a value other than the three labels.
\<close>

theorem confidence_table:
  assumes "POST e email = (r, tr)"
  shows "(full_pipeline r \<longrightarrow>
           (\<exists>v m d. r_isVerified r = Some v \<and> r_details r = Some d \<and> d_mxRecords d = Some m
              \<and> (v \<longrightarrow> m)
              \<and> r_confidence r
                  = Some (if v then ''high'' else if m then ''medium'' else ''low'')))
       \<and> (\<not> full_pipeline r \<longrightarrow> r_confidence r = None)
       \<and> r_confidence r \<in> {None, Some ''high'', Some ''medium'', Some ''low''}"
proof -
  from assms have r: "fst (POST e email) = r" by simp
  from POST_shape [of e email] show ?thesis
    unfolding r full_pipeline_def by auto
qed

theorem confidence_table_witness:
  "full_pipeline (fst (POST env_unconfirmed ''admin@example.com''))
   \<and> r_isVerified (fst (POST env_unconfirmed ''admin@example.com'')) = Some False
   \<and> r_confidence (fst (POST env_unconfirmed ''admin@example.com'')) = Some ''medium''"
proof -
  have run: "POST env_unconfirmed ''admin@example.com''
      = (fst (POST env_unconfirmed ''admin@example.com''),
         snd (POST env_unconfirmed ''admin@example.com''))"
    by simp
  have fp: "full_pipeline (fst (POST env_unconfirmed ''admin@example.com''))"
    by code_simp
  have v: "r_isVerified (fst (POST env_unconfirmed ''admin@example.com'')) = Some False"
    by code_simp
  have mx: "map_option d_mxRecords (r_details (fst (POST env_unconfirmed ''admin@example.com'')))
      = Some (Some True)"
    by code_simp
  from confidence_table [OF run] fp v mx show ?thesis by auto
qed

subsection \<open>Malformed input\<close>

lemma not_valid_empty: "\<not> isValidEmail []"
  by code_simp

text \<open>
  C2, as amended. For a signed-in caller and an input that fails the syntax check, no
  call leaves the process (neither the MX lookup nor the provider) and \<open>valid\<close> is false.
  A non-empty input is answered with \<open>details.format\<close>, \<open>domain\<close>, \<open>disposable\<close> and
  \<open>mxRecords\<close> all false, no other detail key but \<open>roleBased\<close>, and \<open>roleBased\<close> the
  result of the role-prefix test on the input, which can be true. The empty input is
  answered with status 400 and no details.
\<close>

theorem malformed_response:
  assumes "userId e \<noteq> None" and "\<not> isValidEmail email" and "POST e email = (r, tr)"
  shows "tr = [] \<and> r_valid r = Some False \<and> r_confidence r = None \<and> r_isVerified r = None
     \<and> (if email = [] then status r = 400 \<and> r_details r = None
        else status r = 200 \<and> r_details r = Some (no_details \<lparr> d_format := Some False,
               d_domain := Some False, d_disposable := Some False, d_mxRecords := Some False,
               d_roleBased := Some (isRoleBasedEmail email) \<rparr>))"
  using assms by (auto simp: POST_def json_def)

theorem malformed_response_witness:
  "userId env_live \<noteq> None \<and> \<not> isValidEmail ''jane.doe-example.com''
   \<and> snd (POST env_live ''jane.doe-example.com'') = []
   \<and> r_valid (fst (POST env_live ''jane.doe-example.com'')) = Some False
   \<and> r_details (fst (POST env_live ''jane.doe-example.com''))
       = Some (no_details \<lparr> d_format := Some False, d_domain := Some False,
            d_disposable := Some False, d_mxRecords := Some False,
            d_roleBased := Some False \<rparr>)"
proof -
  have h1: "userId env_live \<noteq> None" by (simp add: env_live_def)
  have h2: "\<not> isValidEmail ''jane.doe-example.com''" by code_simp
  have h3: "\<not> isRoleBasedEmail ''jane.doe-example.com''" by code_simp
  have run: "POST env_live ''jane.doe-example.com''
      = (fst (POST env_live ''jane.doe-example.com''),
         snd (POST env_live ''jane.doe-example.com''))"
    by simp
  from malformed_response [OF h1 h2 run] h1 h2 h3 show ?thesis by simp
qed

text \<open>
  The claim as first stated fails for the input \<open>admin\<close>: it has no \<open>@\<close>, and the
  response has \<open>details.roleBased\<close> true.
\<close>

theorem malformed_role_counterexample:
  "\<not> isValidEmail ''admin'' \<and>
   map_option d_roleBased (r_details (fst (POST env_live ''admin''))) = Some (Some True)"
  by code_simp

subsection \<open>Disposable domains\<close>

text \<open>
  C3. For a signed-in caller, a syntactically valid address whose domain (the part after
  the \<open>@\<close>), lower-cased, is in the disposable list, and whose domain has at least one MX
  record: the response has \<open>valid\<close> false and \<open>details.disposable\<close> true, and the only
  call made is the MX lookup, so the provider's client is neither created nor asked.
\<close>

theorem disposable_short_circuit:
  assumes "userId e \<noteq> None"
    and "isValidEmail email"
    and "nth_opt (split_on CHR ''@'' email) 1 = Some domain"
    and "toLowerCase domain \<in> set disposableDomains"
    and "resolveMx e domain = Some records" and "records \<noteq> []"
    and "POST e email = (r, tr)"
  shows "r_valid r = Some False
     \<and> map_option d_disposable (r_details r) = Some (Some True)
     \<and> tr = [ResolveMx domain]
     \<and> InitSESClient \<notin> set tr \<and> (\<forall>address. SesSend address \<notin> set tr)"
proof -
  from assms(1) obtain u where uid: "userId e = Some u" by auto
  from assms(2) have ne: "email \<noteq> []" using not_valid_empty by auto
  from assms(4) have dne: "domain \<noteq> []"
    by (auto simp: disposableDomains_def toLowerCase_def)
  from assms(3,4) have disp: "isDisposableEmail email"
    by (simp add: isDisposableEmail_def)
  from assms(5,6) have mx: "hasMxRecords e domain"
    by (simp add: hasMxRecords_def)
  have "POST e email = ((json 200) \<lparr> r_valid := Some False,
                     r_message := Some ''Disposable email addresses are not allowed'',
                     r_isVerified := Some False,
                     r_emailQuality := Some (emailQuality_of domain),
                     r_suggestion := Some (suggestEmailCorrection email),
                     r_details := Some (no_details \<lparr> d_format := Some True,
                       d_domain := Some True, d_disposable := Some True,
                       d_mxRecords := Some True,
                       d_roleBased := Some (isRoleBasedEmail email) \<rparr>) \<rparr>,
                   [ResolveMx domain])"
    using uid ne assms(2,3) dne disp mx by (simp add: POST_def Let_def)
  with assms(7) show ?thesis by (auto simp: json_def no_details_def)
qed

theorem disposable_short_circuit_witness:
  "userId env_live \<noteq> None \<and> isValidEmail ''bob@Mailinator.com''
   \<and> toLowerCase ''Mailinator.com'' \<in> set disposableDomains
   \<and> r_valid (fst (POST env_live ''bob@Mailinator.com'')) = Some False
   \<and> map_option d_disposable (r_details (fst (POST env_live ''bob@Mailinator.com'')))
       = Some (Some True)
   \<and> snd (POST env_live ''bob@Mailinator.com'') = [ResolveMx ''Mailinator.com'']"
proof -
  have h1: "userId env_live \<noteq> None" by (simp add: env_live_def)
  have h2: "isValidEmail ''bob@Mailinator.com''" by code_simp
  have h3: "nth_opt (split_on CHR ''@'' ''bob@Mailinator.com'') 1 = Some ''Mailinator.com''"
    by code_simp
  have h4: "toLowerCase ''Mailinator.com'' \<in> set disposableDomains" by code_simp
  have h5: "resolveMx env_live ''Mailinator.com'' = Some [(10, ''mx.example.com'')]"
    by (simp add: env_live_def)
  have h6: "[(10::nat, ''mx.example.com'')] \<noteq> []" by simp
  have run: "POST env_live ''bob@Mailinator.com''
      = (fst (POST env_live ''bob@Mailinator.com''), snd (POST env_live ''bob@Mailinator.com''))"
    by simp
  from disposable_short_circuit [OF h1 h2 h3 h4 h5 h6 run] h1 h2 h4 show ?thesis by simp
qed

subsection \<open>Domains without mail servers\<close>

text \<open>
  For a signed-in caller and any syntactically valid address whose MX lookup fails or
  finds nothing, the handler makes the MX lookup only and answers with the
  no-mail-servers message, \<open>valid\<close> false, and no key beyond those written below.
\<close>

lemma no_mx_short_circuit:
  assumes "userId e \<noteq> None" and "isValidEmail email"
    and "nth_opt (split_on CHR ''@'' email) 1 = Some domain"
    and "resolveMx e domain = None \<or> resolveMx e domain = Some []"
  shows "POST e email = ((json 200) \<lparr> r_valid := Some False,
                     r_message := Some ''Email domain does not have valid mail servers'',
                     r_isVerified := Some False,
                     r_emailQuality := Some (emailQuality_of domain),
                     r_suggestion := Some (suggestEmailCorrection email),
                     r_details := Some (no_details \<lparr> d_format := Some True,
                       d_domain := Some True, d_disposable := Some (isDisposableEmail email),
                       d_mxRecords := Some False,
                       d_roleBased := Some (isRoleBasedEmail email) \<rparr>) \<rparr>,
                   [ResolveMx domain])"
proof -
  from assms(1) obtain u where uid: "userId e = Some u" by auto
  from assms(2) have ne: "email \<noteq> []" using not_valid_empty by auto
  from valid_email_parts [OF assms(2)] assms(3) have dne: "domain \<noteq> []" by auto
  from assms(4) have mx: "\<not> hasMxRecords e domain"
    by (auto simp: hasMxRecords_def)
  show ?thesis
    using uid ne assms(2,3) dne mx by (simp add: POST_def Let_def)
qed

text \<open>
  C4. The address \<open>user@example.com\<close> is syntactically valid; when its domain resolves
  to an empty list of MX records the handler answers \<open>valid\<close> false with the
  no-mail-servers message after the MX lookup alone. The answer has no confidence key:
  the label \<open>low\<close> is written only in the last \<open>return\<close>, which this path leaves before
  reaching.
\<close>

theorem no_mx_response_omits_confidence:
  "isValidEmail ''user@example.com''
   \<and> resolveMx env_no_mx ''example.com'' = Some []
   \<and> r_valid (fst (POST env_no_mx ''user@example.com'')) = Some False
   \<and> r_message (fst (POST env_no_mx ''user@example.com''))
       = Some ''Email domain does not have valid mail servers''
   \<and> snd (POST env_no_mx ''user@example.com'') = [ResolveMx ''example.com'']
   \<and> r_confidence (fst (POST env_no_mx ''user@example.com'')) = None"
  by code_simp

subsection \<open>Typo suggestions\<close>

lemma toLowerChar_not_upper: "\<not> is_upper (toLowerChar c)"
  by (auto simp: toLowerChar_def is_upper_def Let_def)

lemma toLowerCase_not_upper: "c \<in> set (toLowerCase s) \<Longrightarrow> \<not> is_upper c"
  by (auto simp: toLowerCase_def toLowerChar_not_upper)

text \<open>
  Of the names every object inherits, only \<open>constructor\<close> and \<open>__proto__\<close> have no
  capital letter, so only these two can be hit by a lower-cased key.
\<close>

lemma inherited_lower:
  assumes "map_of object_prototype (toLowerCase s) = Some v"
  shows "toLowerCase s = ''constructor'' \<or> toLowerCase s = ''__proto__''"
proof -
  have up: "is_upper CHR ''O''" "is_upper CHR ''P''" "is_upper CHR ''I''" "is_upper CHR ''L''"
    "is_upper CHR ''S''" "is_upper CHR ''G''" "is_upper CHR ''E''"
    by (simp_all add: is_upper_def)
  from assms have "(toLowerCase s, v) \<in> set object_prototype" by (rule map_of_SomeD)
  then consider "toLowerCase s = ''constructor''" | "toLowerCase s = ''__proto__''"
    | "CHR ''O'' \<in> set (toLowerCase s)" | "CHR ''P'' \<in> set (toLowerCase s)"
    | "CHR ''E'' \<in> set (toLowerCase s)" | "CHR ''L'' \<in> set (toLowerCase s)"
    | "CHR ''S'' \<in> set (toLowerCase s)" | "CHR ''G'' \<in> set (toLowerCase s)"
    by (auto simp: object_prototype_def)
  then show ?thesis using up toLowerCase_not_upper by cases blast+
qed

lemma js_get_lower:
  assumes "toLowerCase s \<noteq> ''constructor''" and "toLowerCase s \<noteq> ''__proto__''"
  shows "js_get own (toLowerCase s)
     = (case map_of own (toLowerCase s) of Some v \<Rightarrow> JStr v | None \<Rightarrow> JUndefined)"
proof -
  have "map_of object_prototype (toLowerCase s) = None"
    using inherited_lower [of s] assms by (cases "map_of object_prototype (toLowerCase s)") auto
  then show ?thesis by (simp add: js_get_def split: option.splits)
qed

lemma domain_fix_nonempty: "map_of commonDomainTypos k = Some v \<Longrightarrow> v \<noteq> []"
  by (auto simp: commonDomainTypos_def split: if_splits)

lemma tld_fix_nonempty: "map_of commonTldTypos k = Some v \<Longrightarrow> v \<noteq> []"
  by (auto simp: commonTldTypos_def split: if_splits)

text \<open>
  Away from the two inherited names, the suggester computes the table of the
  specification: the domain table wins, then the last label is looked up, then nothing.
\<close>

lemma suggestEmailCorrection_table:
  assumes "CHR ''@'' \<notin> set localPart" and "CHR ''@'' \<notin> set domain"
    and "toLowerCase domain \<noteq> ''constructor''" and "toLowerCase domain \<noteq> ''__proto__''"
    and "toLowerCase (last (split_on CHR ''.'' domain)) \<noteq> ''constructor''"
    and "toLowerCase (last (split_on CHR ''.'' domain)) \<noteq> ''__proto__''"
  shows "suggestEmailCorrection (localPart @ ''@'' @ domain) = suggest_table localPart domain"
proof -
  have parts: "split_on CHR ''@'' (localPart @ ''@'' @ domain) = [localPart, domain]"
    using assms(1,2) by (simp add: split_on_at_sep split_on_no_sep)
  show ?thesis
  proof (cases "map_of commonDomainTypos (toLowerCase domain)")
    case (Some fixed)
    then show ?thesis
      using parts js_get_lower [OF assms(3,4), of commonDomainTypos]
        domain_fix_nonempty [OF Some]
      by (simp add: suggestEmailCorrection_def suggest_table_def)
  next
    case None
    show ?thesis
    proof (cases "map_of commonTldTypos (toLowerCase (last (split_on CHR ''.'' domain)))")
      case tnone: None
      with None show ?thesis
        using parts js_get_lower [OF assms(3,4), of commonDomainTypos]
          js_get_lower [OF assms(5,6), of commonTldTypos]
        by (simp add: suggestEmailCorrection_def suggest_table_def Let_def)
    next
      case (Some tld)
      with None show ?thesis
        using parts js_get_lower [OF assms(3,4), of commonDomainTypos]
          js_get_lower [OF assms(5,6), of commonTldTypos] tld_fix_nonempty [OF Some]
        by (simp add: suggestEmailCorrection_def suggest_table_def Let_def)
    qed
  qed
qed

lemma suggest_gamil: "suggestEmailCorrection ''foo@gamil.com'' = Some ''foo@gmail.com''"
  by code_simp

lemma suggest_domain_wins: "suggestEmailCorrection ''foo@GAMIL.com'' = Some ''foo@gmail.com''"
  by code_simp

lemma suggest_tld: "suggestEmailCorrection ''foo@mail.example.con'' = Some ''foo@mail.example.com''"
  by code_simp

text \<open>
  C8. The domain \<open>constructor\<close> is no entry of the misspelling table and has a single
  label, yet the suggester answers: the table is an object literal, and the read finds
  the member of that name which every object inherits.
\<close>

theorem suggestion_from_inherited_member:
  "map_of commonDomainTypos ''constructor'' = None
   \<and> split_on CHR ''.'' ''constructor'' = [''constructor'']
   \<and> suggestEmailCorrection ''foo@constructor''
       = Some ''foo@function Object() { [native code] }''"
  by code_simp

subsection \<open>Quality labels of the two entry points\<close>

text \<open>
  C9. Both entry points accept \<open>a@GMAIL.COM\<close>. The route that lower-cases the domain
  labels it \<open>personal\<close>; the earlier route compares the domain as typed and labels it
  \<open>business\<close>.
\<close>

theorem quality_differs_on_case:
  "isValidEmail ''a@GMAIL.COM'' \<and> isValidEmail_002 ''a@GMAIL.COM''
   \<and> r_emailQuality (fst (POST env_live ''a@GMAIL.COM'')) = Some ''personal''
   \<and> q_emailQuality (fst (POST_002 env_live ''a@GMAIL.COM'')) = Some (Some ''business'')"
  by code_simp

section \<open>Properties of the bulk results component\<close>

subsection \<open>The batch loop\<close>

lemma findIndex_None_iff: "findIndex p xs = None \<longleftrightarrow> (\<forall>x \<in> set xs. \<not> p x)"
  by (induction xs) auto

lemma emailsToVerify_found:
  "email \<in> set (emailsToVerify results)
     \<Longrightarrow> findIndex (\<lambda>r. foundEmail r = Some email) results \<noteq> None"
proof -
  assume "email \<in> set (emailsToVerify results)"
  then obtain x where x: "x \<in> set results" "truthy_opt (foundEmail x)"
      "email = the (foundEmail x)"
    by (auto simp: emailsToVerify_def)
  from x(2,3) have "foundEmail x = Some email" by (cases "foundEmail x") auto
  with x(1) show ?thesis by (auto simp: findIndex_None_iff)
qed

lemma verify_round_requested: "requested (verify_round k a email b) = requested b @ [email]"
  by (cases a) (simp_all add: verify_round_def Let_def)

lemma verify_round_failed:
  "failedCount (verify_round k a email b) = failedCount b + (if unconfirmed a then 1 else 0)"
  by (cases a) (simp_all add: verify_round_def Let_def)

lemma verify_round_verified:
  "verifiedCount (verify_round k a email b) = verifiedCount b + (if confirmed a then 1 else 0)"
  by (cases a) (simp_all add: verify_round_def Let_def)

text \<open>
  The loop asks for every address it is given, whatever the answers are, and each round
  adds one to exactly one of the two counters.
\<close>

lemma verify_loop_counts:
  assumes "\<forall>email \<in> set rest. findIndex (\<lambda>r. foundEmail r = Some email) results \<noteq> None"
  shows "requested (verify_loop fetch results n i rest b) = requested b @ rest
     \<and> failedCount (verify_loop fetch results n i rest b)
         = failedCount b + count_from unconfirmed fetch i rest
     \<and> verifiedCount (verify_loop fetch results n i rest b)
         = verifiedCount b + count_from confirmed fetch i rest"
  using assms
proof (induction rest arbitrary: i b)
  case Nil
  then show ?case by simp
next
  case (Cons email rest)
  from Cons.prems obtain k
    where k: "findIndex (\<lambda>r. foundEmail r = Some email) results = Some k"
    by auto
  from Cons.prems
  have rest: "\<forall>x \<in> set rest. findIndex (\<lambda>r. foundEmail r = Some x) results \<noteq> None"
    by simp
  show ?case
    using k Cons.IH [OF rest]
    by (simp add: Let_def verify_round_requested verify_round_failed verify_round_verified)
qed

lemma count_from_split:
  "count_from confirmed fetch i emails + count_from unconfirmed fetch i emails = length emails"
proof (induction emails arbitrary: i)
  case Nil
  then show ?case by simp
next
  case (Cons email rest)
  have "confirmed (fetch i email) \<noteq> unconfirmed (fetch i email)"
    by (cases "fetch i email") auto
  with Cons.IH [of "Suc i"] show ?case by auto
qed

lemma count_from_thrown_le:
  "count_from thrown fetch i emails \<le> count_from unconfirmed fetch i emails"
proof (induction emails arbitrary: i)
  case Nil
  then show ?case by simp
next
  case (Cons email rest)
  have "thrown (fetch i email) \<Longrightarrow> unconfirmed (fetch i email)"
    by (cases "fetch i email") auto
  with Cons.IH [of "Suc i"] show ?case by (auto simp: le_SucI)
qed

lemma findIndex_Some:
  "findIndex p xs = Some k \<Longrightarrow> k < length xs \<and> p (xs ! k)"
proof (induction xs arbitrary: k)
  case Nil
  then show ?case by simp
next
  case (Cons x xs)
  then show ?case by (cases "p x") auto
qed

lemma verify_round_length:
  "length (updatedResults (verify_round k a email b)) = length (updatedResults b)"
  by (cases a) (simp_all add: verify_round_def Let_def)

lemma verify_round_other:
  "j \<noteq> k \<Longrightarrow> updatedResults (verify_round k a email b) ! j = updatedResults b ! j"
  by (cases a) (simp_all add: verify_round_def Let_def)

lemma distinct_addresses_same:
  assumes "distinct_addresses results" and "x \<in> set results" and "y \<in> set results"
    and "truthy_opt (foundEmail x)" and "foundEmail x = foundEmail y"
  shows "x = y"
proof -
  let ?found = "filter (\<lambda>record. truthy_opt (foundEmail record)) results"
  from assms have "x \<in> set ?found" "y \<in> set ?found" by auto
  moreover from assms(1) have "inj_on foundEmail (set ?found)"
    by (simp add: distinct_addresses_def distinct_map)
  ultimately show ?thesis using assms(5) by (auto dest: inj_onD)
qed

lemma verify_loop_frame:
  assumes "distinct_addresses results"
    and "set rest \<subseteq> set (emailsToVerify results)"
    and "length (updatedResults b) = length results"
    and "\<forall>j < length results. \<not> selected (results ! j) \<longrightarrow> updatedResults b ! j = results ! j"
  shows "length (updatedResults (verify_loop fetch results n i rest b)) = length results
     \<and> (\<forall>j < length results. \<not> selected (results ! j)
           \<longrightarrow> updatedResults (verify_loop fetch results n i rest b) ! j = results ! j)"
  using assms(2,3,4)
proof (induction rest arbitrary: i b)
  case Nil
  then show ?case by simp
next
  case (Cons email rest)
  from Cons.prems(1) have sel: "email \<in> set (emailsToVerify results)" by simp
  then obtain x where x: "x \<in> set results" "selected x" "foundEmail x = Some email"
  proof -
    from sel obtain y where y: "y \<in> set results" "truthy_opt (foundEmail y)"
        "isVerified y = Undefined" "email = the (foundEmail y)"
      by (auto simp: emailsToVerify_def)
    from y(2,4) have "foundEmail y = Some email" by (cases "foundEmail y") auto
    with y(1,2,3) show ?thesis using that by (simp add: selected_def)
  qed
  from emailsToVerify_found [OF sel] obtain k
    where k: "findIndex (\<lambda>r. foundEmail r = Some email) results = Some k"
    by auto
  from findIndex_Some [OF k]
  have kk: "k < length results" "foundEmail (results ! k) = Some email"
    by simp_all
  from kk(1) have "results ! k \<in> set results" by simp
  with x kk(2) assms(1) have "x = results ! k"
    using distinct_addresses_same [of results x "results ! k"] by (simp add: selected_def)
  with x(2) have ksel: "selected (results ! k)" by simp
  let ?b1 = "verify_round k (fetch i email) email b"
  let ?b2 = "if i mod 5 = 0 \<or> i = n - 1
             then ?b1 \<lparr> published := published ?b1 @ [updatedResults ?b1] \<rparr> else ?b1"
  have len: "length (updatedResults ?b2) = length results"
    using Cons.prems(2) by (simp add: verify_round_length)
  have frame:
    "\<forall>j < length results. \<not> selected (results ! j) \<longrightarrow> updatedResults ?b2 ! j = results ! j"
  proof (intro allI impI)
    fix j assume j: "j < length results" "\<not> selected (results ! j)"
    with ksel have "j \<noteq> k" by auto
    then have "updatedResults ?b2 ! j = updatedResults b ! j"
      by (simp add: verify_round_other)
    with Cons.prems(3) j show "updatedResults ?b2 ! j = results ! j" by simp
  qed
  from Cons.prems(1) have rest: "set rest \<subseteq> set (emailsToVerify results)" by simp
  from Cons.IH [OF rest len frame, of "Suc i"] show ?case
    using k by (simp add: Let_def)
qed

lemma length_emailsToVerify:
  "length (emailsToVerify results) = length (filter selected results)"
  by (simp add: emailsToVerify_def selected_def [abs_def])

text \<open>
  When no two records hold the same address, the batch makes one request for each
  selected record and leaves every record that is not selected as it was.
\<close>

lemma verifyAll_frame:
  assumes "distinct_addresses results" and "emailsToVerify results \<noteq> []"
  shows "\<exists>b. verifyAllEmails fetch (Some results) = Some b
     \<and> length (requested b) = length (filter selected results)
     \<and> length (updatedResults b) = length results
     \<and> (\<forall>j < length results. \<not> selected (results ! j)
           \<longrightarrow> updatedResults b ! j = results ! j)"
proof -
  let ?emails = "emailsToVerify results"
  let ?start = "\<lparr> updatedResults = results, verifiedCount = 0, failedCount = 0,
               published = [], requested = [] \<rparr>"
  let ?final = "verify_loop fetch results (length ?emails) 0 ?emails ?start"
  from assms(2) have ne: "results \<noteq> []" by (auto simp: emailsToVerify_def)
  have run: "verifyAllEmails fetch (Some results)
      = Some (?final \<lparr> published := published ?final @ [updatedResults ?final] \<rparr>)"
    using assms(2) ne by (simp add: verifyAllEmails_def Let_def)
  have found:
    "\<forall>email \<in> set ?emails. findIndex (\<lambda>r. foundEmail r = Some email) results \<noteq> None"
    using emailsToVerify_found by blast
  from verify_loop_counts [OF found, where fetch = fetch and n = "length ?emails"
      and i = 0 and b = ?start]
  have req: "requested ?final = ?emails" by simp
  have "length (updatedResults ?final) = length results
     \<and> (\<forall>j < length results. \<not> selected (results ! j)
           \<longrightarrow> updatedResults ?final ! j = results ! j)"
    by (rule verify_loop_frame [OF assms(1)]) simp_all
  with req show ?thesis
    unfolding run by (simp add: length_emailsToVerify)
qed

text \<open>
  C5. Two records hold the same address. The first has been checked already
  (\<open>isVerified\<close> false), the second has not. The batch selects the second record's
  address and makes one request, but looks the record up by address and so writes the
  answer into the first record; the second stays unchecked.
\<close>

theorem verifyAll_writes_to_first_match:
  "isVerified rec_ada = Val False \<and> isVerified rec_bob = Undefined
   \<and> foundEmail rec_ada = foundEmail rec_bob
   \<and> emailsToVerify [rec_ada, rec_bob] = [''office@example.com'']
   \<and> map_option requested (verifyAllEmails fetch_confirms (Some [rec_ada, rec_bob]))
       = Some [''office@example.com'']
   \<and> map_option updatedResults (verifyAllEmails fetch_confirms (Some [rec_ada, rec_bob]))
       = Some [rec_ada \<lparr> isVerified := Val True \<rparr>, rec_bob]"
  by code_simp

lemma verify_round_writes:
  "k < length (updatedResults b) \<Longrightarrow>
   updatedResults (verify_round k a email b)
     = (updatedResults b)[k := apply_answer a (updatedResults b ! k)]"
  by (cases a) (simp_all add: verify_round_def apply_answer_def Let_def)

lemma round_answer_absent: "address \<notin> set emails \<Longrightarrow> round_answer fetch i emails address = None"
  by (induction emails arbitrary: i) auto

lemma distinct_addresses_Cons:
  "distinct_addresses (r # rs) \<longleftrightarrow>
     distinct_addresses rs
     \<and> (truthy_opt (foundEmail r) \<longrightarrow> (\<forall>y \<in> set rs. foundEmail y \<noteq> foundEmail r))"
proof (cases "truthy_opt (foundEmail r)")
  case True
  have "foundEmail r \<in> foundEmail ` {x \<in> set rs. truthy_opt (foundEmail x)}
      \<longleftrightarrow> (\<exists>y \<in> set rs. foundEmail y = foundEmail r)"
  proof
    assume "foundEmail r \<in> foundEmail ` {x \<in> set rs. truthy_opt (foundEmail x)}"
    then show "\<exists>y \<in> set rs. foundEmail y = foundEmail r" by auto
  next
    assume "\<exists>y \<in> set rs. foundEmail y = foundEmail r"
    then obtain y where y: "y \<in> set rs" "foundEmail y = foundEmail r" by blast
    with True have "y \<in> {x \<in> set rs. truthy_opt (foundEmail x)}" by simp
    with y(2) show "foundEmail r \<in> foundEmail ` {x \<in> set rs. truthy_opt (foundEmail x)}"
      by (metis imageI)
  qed
  with True show ?thesis by (auto simp: distinct_addresses_def)
next
  case False
  then show ?thesis by (simp add: distinct_addresses_def)
qed

lemma distinct_addresses_index:
  assumes "distinct_addresses results" and "k < length results" and "j < length results"
    and "truthy_opt (foundEmail (results ! k))"
    and "foundEmail (results ! k) = foundEmail (results ! j)"
  shows "k = j"
  using assms
proof (induction results arbitrary: k j)
  case Nil
  then show ?case by simp
next
  case (Cons r rs)
  from Cons.prems(1) have tail: "distinct_addresses rs"
    and head: "truthy_opt (foundEmail r) \<Longrightarrow> (\<forall>y \<in> set rs. foundEmail y \<noteq> foundEmail r)"
    by (simp_all add: distinct_addresses_Cons)
  show ?case
  proof (cases k)
    case k0: 0
    show ?thesis
    proof (cases j)
      case 0
      with k0 show ?thesis by simp
    next
      case (Suc j')
      with k0 Cons.prems have "truthy_opt (foundEmail r)" "rs ! j' \<in> set rs"
        "foundEmail (rs ! j') = foundEmail r" by simp_all
      with head show ?thesis by auto
    qed
  next
    case ks: (Suc k')
    show ?thesis
    proof (cases j)
      case 0
      with ks Cons.prems have "truthy_opt (foundEmail r)" "rs ! k' \<in> set rs"
        "truthy_opt (foundEmail (rs ! k'))" "foundEmail (rs ! k') = foundEmail r" by simp_all
      with head show ?thesis by auto
    next
      case (Suc j')
      with ks Cons.prems Cons.IH [OF tail, of k' j'] show ?thesis by simp
    qed
  qed
qed

lemma emailsToVerify_holder:
  "email \<in> set (emailsToVerify rs)
     \<Longrightarrow> \<exists>y \<in> set rs. truthy_opt (foundEmail y) \<and> foundEmail y = Some email"
proof -
  assume "email \<in> set (emailsToVerify rs)"
  then obtain y where y: "y \<in> set rs" "truthy_opt (foundEmail y)" "email = the (foundEmail y)"
    by (auto simp: emailsToVerify_def)
  from y(2,3) have "foundEmail y = Some email" by (cases "foundEmail y") auto
  with y(1,2) show ?thesis by (intro bexI [of _ y]) simp_all
qed

lemma emailsToVerify_truthy: "email \<in> set (emailsToVerify results) \<Longrightarrow> email \<noteq> []"
  using emailsToVerify_holder [of email results] by auto

lemma verify_loop_writes:
  assumes "distinct_addresses results"
    and "distinct rest"
    and "set rest \<subseteq> set (emailsToVerify results)"
    and "length (updatedResults b) = length results"
  shows "length (updatedResults (verify_loop fetch results n i rest b)) = length results
     \<and> (\<forall>k < length results.
          updatedResults (verify_loop fetch results n i rest b) ! k
            = (case answer_at fetch i rest (results ! k) of
                 Some answer \<Rightarrow> apply_answer answer (updatedResults b ! k)
               | None \<Rightarrow> updatedResults b ! k))"
  using assms(2,3,4)
proof (induction rest arbitrary: i b)
  case Nil
  then show ?case by (simp add: answer_at_def split: option.splits)
next
  case (Cons email rest)
  from Cons.prems(2) have sel: "email \<in> set (emailsToVerify results)" by simp
  from emailsToVerify_found [OF sel] obtain k0
    where k0: "findIndex (\<lambda>r. foundEmail r = Some email) results = Some k0"
    by auto
  from findIndex_Some [OF k0]
  have kk: "k0 < length results" "foundEmail (results ! k0) = Some email"
    by simp_all
  from emailsToVerify_truthy [OF sel] have truthy: "email \<noteq> []" .
  define b2 where "b2 = (let b1 = verify_round k0 (fetch i email) email b in
      if i mod 5 = 0 \<or> i = n - 1
      then b1 \<lparr> published := published b1 @ [updatedResults b1] \<rparr> else b1)"
  have upd: "updatedResults b2
      = (updatedResults b)[k0 := apply_answer (fetch i email) (updatedResults b ! k0)]"
    using kk(1) Cons.prems(3) by (simp add: b2_def Let_def verify_round_writes)
  then have len: "length (updatedResults b2) = length results"
    using Cons.prems(3) by simp
  from Cons.prems(1) have drest: "distinct rest" and fresh: "email \<notin> set rest" by simp_all
  from Cons.prems(2) have rest: "set rest \<subseteq> set (emailsToVerify results)" by simp
  have step: "verify_loop fetch results n i (email # rest) b
      = verify_loop fetch results n (Suc i) rest b2"
    using k0 by (simp add: b2_def Let_def)
  note IH = Cons.IH [OF drest rest len, of "Suc i"]
  show ?case
  proof (intro conjI allI impI)
    show "length (updatedResults (verify_loop fetch results n i (email # rest) b)) = length results"
      unfolding step using IH by simp
  next
    fix k assume k: "k < length results"
    from IH k have final: "updatedResults (verify_loop fetch results n (Suc i) rest b2) ! k
        = (case answer_at fetch (Suc i) rest (results ! k) of
             Some answer \<Rightarrow> apply_answer answer (updatedResults b2 ! k)
           | None \<Rightarrow> updatedResults b2 ! k)"
      by blast
    show "updatedResults (verify_loop fetch results n i (email # rest) b) ! k
        = (case answer_at fetch i (email # rest) (results ! k) of
             Some answer \<Rightarrow> apply_answer answer (updatedResults b ! k)
           | None \<Rightarrow> updatedResults b ! k)"
    proof (cases "k = k0")
      case True
      have "answer_at fetch (Suc i) rest (results ! k) = None"
        using True kk(2) fresh by (simp add: answer_at_def round_answer_absent)
      moreover have "answer_at fetch i (email # rest) (results ! k) = Some (fetch i email)"
        using True kk(2) by (simp add: answer_at_def)
      ultimately show ?thesis
        unfolding step final upd using True kk(1) Cons.prems(3) by simp
    next
      case False
      have other: "foundEmail (results ! k) \<noteq> Some email"
      proof
        assume same: "foundEmail (results ! k) = Some email"
        with truthy kk(2) k kk(1) assms(1) have "k = k0"
          using distinct_addresses_index [of results k k0] by simp
        with False show False by simp
      qed
      then have e1: "answer_at fetch i (email # rest) (results ! k)
          = answer_at fetch (Suc i) rest (results ! k)"
        by (auto simp: answer_at_def split: option.splits)
      have e2: "updatedResults b2 ! k = updatedResults b ! k"
        unfolding upd using False by simp
      show ?thesis by (simp only: step final e1 e2)
    qed
  qed
qed

lemma emailsToVerify_Cons:
  "emailsToVerify (r # rs)
     = (if selected r then the (foundEmail r) # emailsToVerify rs else emailsToVerify rs)"
  by (simp add: emailsToVerify_def selected_def)

lemma process_all_length: "length (process_all fetch i rs) = length rs"
  by (induction rs arbitrary: i) auto

lemma process_all_nth:
  assumes "distinct_addresses rs" and "k < length rs"
  shows "process_all fetch i rs ! k
     = (case answer_at fetch i (emailsToVerify rs) (rs ! k) of
          Some answer \<Rightarrow> apply_answer answer (rs ! k)
        | None \<Rightarrow> rs ! k)"
  using assms
proof (induction rs arbitrary: i k)
  case Nil
  then show ?case by simp
next
  case (Cons r rs)
  from Cons.prems(1) have tail: "distinct_addresses rs"
    and head: "truthy_opt (foundEmail r) \<Longrightarrow> (\<forall>y \<in> set rs. foundEmail y \<noteq> foundEmail r)"
    by (simp_all add: distinct_addresses_Cons)
  show ?case
  proof (cases "selected r")
    case sel: True
    then obtain a where a: "foundEmail r = Some a" "a \<noteq> []"
      by (cases "foundEmail r") (auto simp: selected_def)
    show ?thesis
    proof (cases k)
      case 0
      with sel a show ?thesis by (simp add: emailsToVerify_Cons answer_at_def)
    next
      case (Suc k')
      with Cons.prems(2) have k': "k' < length rs" by simp
      have "foundEmail (rs ! k') \<noteq> Some a"
      proof
        assume same: "foundEmail (rs ! k') = Some a"
        with a head nth_mem [OF k'] show False by auto
      qed
      then have "answer_at fetch i (emailsToVerify (r # rs)) (rs ! k')
          = answer_at fetch (Suc i) (emailsToVerify rs) (rs ! k')"
        using sel a by (auto simp: emailsToVerify_Cons answer_at_def split: option.splits)
      with Cons.IH [OF tail k', of "Suc i"] Suc sel show ?thesis
        by (simp split: option.splits)
    qed
  next
    case nsel: False
    show ?thesis
    proof (cases k)
      case 0
      have "answer_at fetch i (emailsToVerify rs) r = None"
      proof (cases "foundEmail r")
        case None
        then show ?thesis by (simp add: answer_at_def)
      next
        case (Some a)
        have "a \<notin> set (emailsToVerify rs)"
        proof
          assume "a \<in> set (emailsToVerify rs)"
          from emailsToVerify_holder [OF this] emailsToVerify_truthy [OF this] Some head
          show False by auto
        qed
        with Some show ?thesis by (simp add: answer_at_def round_answer_absent)
      qed
      with 0 nsel show ?thesis by (simp add: emailsToVerify_Cons)
    next
      case (Suc k')
      with Cons.prems(2) have k': "k' < length rs" by simp
      with Cons.IH [OF tail k', of i] Suc nsel show ?thesis
        by (simp add: emailsToVerify_Cons split: option.splits)
    qed
  qed
qed

lemma distinct_emailsToVerify:
  assumes "distinct_addresses results"
  shows "distinct (emailsToVerify results)"
  using assms
proof (induction results)
  case Nil
  then show ?case by (simp add: emailsToVerify_def)
next
  case (Cons r rs)
  from Cons.prems have tail: "distinct_addresses rs"
    and head: "truthy_opt (foundEmail r) \<Longrightarrow> (\<forall>y \<in> set rs. foundEmail y \<noteq> foundEmail r)"
    by (simp_all add: distinct_addresses_Cons)
  show ?case
  proof (cases "selected r")
    case True
    then obtain a where a: "foundEmail r = Some a" "truthy_opt (foundEmail r)"
      by (cases "foundEmail r") (auto simp: selected_def)
    have "a \<notin> set (emailsToVerify rs)"
    proof
      assume "a \<in> set (emailsToVerify rs)"
      from emailsToVerify_holder [OF this] a head show False by auto
    qed
    with True a Cons.IH [OF tail] show ?thesis by (simp add: emailsToVerify_Cons)
  next
    case False
    with Cons.IH [OF tail] show ?thesis by (simp add: emailsToVerify_Cons)
  qed
qed

lemma verify_round_published: "published (verify_round k a email b) = published b"
  by (cases a) (simp_all add: verify_round_def Let_def)

lemma verify_loop_checkpoints:
  assumes "\<forall>email \<in> set rest. findIndex (\<lambda>r. foundEmail r = Some email) results \<noteq> None"
  shows "length (published (verify_loop fetch results n i rest b))
     = length (published b) + checkpoints_from n i (length rest)"
  using assms
proof (induction rest arbitrary: i b)
  case Nil
  then show ?case by simp
next
  case (Cons email rest)
  from Cons.prems obtain k
    where k: "findIndex (\<lambda>r. foundEmail r = Some email) results = Some k"
    by auto
  from Cons.prems
  have rest: "\<forall>x \<in> set rest. findIndex (\<lambda>r. foundEmail r = Some x) results \<noteq> None"
    by simp
  show ?case
    using k Cons.IH [OF rest]
    by (simp add: Let_def verify_round_published)
qed

text \<open>
  C6, as amended. When at least one record is selected, the batch asks for every selected
  address in order whatever the answers are, thrown exceptions included. It publishes
  after every fifth round and after the last one, and once more after the loop; that
  last list is the final working copy. When no two records hold the same address, the
  final working copy is the list processed record by record: every selected record has
  received the answer of its own round, also the records that come after a round that
  threw, and every other record is as it was. Each round adds one to exactly one counter:
  the failure counter counts the rounds that threw, that returned a status that is not
  \<open>ok\<close>, or that returned \<open>isVerified\<close> other than true. It is therefore at least the
  number of exceptions, and the two counters add up to the number of selected records.
\<close>

theorem batch_survives_exceptions:
  assumes "emailsToVerify results \<noteq> []"
  shows "\<exists>b. verifyAllEmails fetch (Some results) = Some b
     \<and> requested b = emailsToVerify results
     \<and> published b \<noteq> [] \<and> last (published b) = updatedResults b
     \<and> length (published b)
         = checkpoints_from (length (emailsToVerify results)) 0 (length (emailsToVerify results)) + 1
     \<and> (distinct_addresses results \<longrightarrow> updatedResults b = process_all fetch 0 results)
     \<and> failedCount b = count_from unconfirmed fetch 0 (emailsToVerify results)
     \<and> verifiedCount b + failedCount b = length (emailsToVerify results)
     \<and> count_from thrown fetch 0 (emailsToVerify results) \<le> failedCount b"
proof -
  let ?emails = "emailsToVerify results"
  let ?start = "\<lparr> updatedResults = results, verifiedCount = 0, failedCount = 0,
               published = [], requested = [] \<rparr>"
  let ?final = "verify_loop fetch results (length ?emails) 0 ?emails ?start"
  from assms have ne: "results \<noteq> []" by (auto simp: emailsToVerify_def)
  have run: "verifyAllEmails fetch (Some results)
      = Some (?final \<lparr> published := published ?final @ [updatedResults ?final] \<rparr>)"
    using assms ne by (simp add: verifyAllEmails_def Let_def)
  have found:
    "\<forall>email \<in> set ?emails. findIndex (\<lambda>r. foundEmail r = Some email) results \<noteq> None"
    using emailsToVerify_found by blast
  note counts = verify_loop_counts [OF found, where fetch = fetch and n = "length ?emails"
      and i = 0 and b = ?start]
  from counts have req: "requested ?final = ?emails" by simp
  from counts have failed: "failedCount ?final = count_from unconfirmed fetch 0 ?emails"
    by simp
  from counts have verified: "verifiedCount ?final = count_from confirmed fetch 0 ?emails"
    by simp
  have total: "verifiedCount ?final + failedCount ?final = length ?emails"
    unfolding failed verified by (rule count_from_split)
  have le: "count_from thrown fetch 0 ?emails \<le> failedCount ?final"
    unfolding failed by (rule count_from_thrown_le)
  have pub: "length (published ?final)
      = checkpoints_from (length ?emails) 0 (length ?emails)"
    using verify_loop_checkpoints [OF found, where fetch = fetch and n = "length ?emails"
      and i = 0 and b = ?start] by simp
  have writes: "updatedResults ?final = process_all fetch 0 results"
    if dist: "distinct_addresses results"
  proof (rule nth_equalityI)
    have loop: "length (updatedResults ?final) = length results
       \<and> (\<forall>k < length results. updatedResults ?final ! k
            = (case answer_at fetch 0 ?emails (results ! k) of
                 Some answer \<Rightarrow> apply_answer answer (results ! k)
               | None \<Rightarrow> results ! k))"
      using verify_loop_writes [OF dist distinct_emailsToVerify [OF dist],
          where b = ?start and fetch = fetch
            and n = "length ?emails" and i = 0]
      by (simp cong: option.case_cong)
    then show "length (updatedResults ?final) = length (process_all fetch 0 results)"
      by (simp add: process_all_length)
    fix k assume "k < length (updatedResults ?final)"
    with loop have k: "k < length results" by simp
    with loop have "updatedResults ?final ! k
        = (case answer_at fetch 0 ?emails (results ! k) of
             Some answer \<Rightarrow> apply_answer answer (results ! k)
           | None \<Rightarrow> results ! k)"
      by blast
    also have "\<dots> = process_all fetch 0 results ! k"
      by (rule process_all_nth [OF dist k, symmetric])
    finally show "updatedResults ?final ! k = process_all fetch 0 results ! k" .
  qed
  show ?thesis
    unfolding run using req failed total le pub writes by simp
qed

theorem batch_survives_exceptions_witness:
  "emailsToVerify [rec_bob, rec_di] \<noteq> []
   \<and> distinct_addresses [rec_bob, rec_di]
   \<and> (\<exists>b. verifyAllEmails fetch_flaky (Some [rec_bob, rec_di]) = Some b
     \<and> requested b = emailsToVerify [rec_bob, rec_di]
     \<and> published b \<noteq> [] \<and> last (published b) = updatedResults b
     \<and> length (published b)
         = checkpoints_from (length (emailsToVerify [rec_bob, rec_di])) 0
             (length (emailsToVerify [rec_bob, rec_di])) + 1
     \<and> updatedResults b = process_all fetch_flaky 0 [rec_bob, rec_di]
     \<and> failedCount b = count_from unconfirmed fetch_flaky 0 (emailsToVerify [rec_bob, rec_di])
     \<and> verifiedCount b + failedCount b = length (emailsToVerify [rec_bob, rec_di])
     \<and> count_from thrown fetch_flaky 0 (emailsToVerify [rec_bob, rec_di]) \<le> failedCount b)
   \<and> count_from thrown fetch_flaky 0 (emailsToVerify [rec_bob, rec_di]) = 1
   \<and> requested (the (verifyAllEmails fetch_flaky (Some [rec_bob, rec_di])))
        = [''office@example.com'', ''di@example.org'']
   \<and> updatedResults (the (verifyAllEmails fetch_flaky (Some [rec_bob, rec_di])))
        = [rec_bob, rec_di \<lparr> isVerified := Val True, emailQuality := Val ''business'' \<rparr>]
   \<and> length (published (the (verifyAllEmails fetch_flaky (Some [rec_bob, rec_di])))) = 3"
proof -
  have h: "emailsToVerify [rec_bob, rec_di] \<noteq> []" by code_simp
  have d: "distinct_addresses [rec_bob, rec_di]" by code_simp
  have c: "count_from thrown fetch_flaky 0 (emailsToVerify [rec_bob, rec_di]) = 1"
    by code_simp
  have q: "requested (the (verifyAllEmails fetch_flaky (Some [rec_bob, rec_di])))
        = [''office@example.com'', ''di@example.org'']"
    by code_simp
  have u: "updatedResults (the (verifyAllEmails fetch_flaky (Some [rec_bob, rec_di])))
        = [rec_bob, rec_di \<lparr> isVerified := Val True, emailQuality := Val ''business'' \<rparr>]"
    by code_simp
  have p: "length (published (the (verifyAllEmails fetch_flaky (Some [rec_bob, rec_di])))) = 3"
    by code_simp
  from batch_survives_exceptions [OF h, of fetch_flaky] d
  have "\<exists>b. verifyAllEmails fetch_flaky (Some [rec_bob, rec_di]) = Some b
     \<and> requested b = emailsToVerify [rec_bob, rec_di]
     \<and> published b \<noteq> [] \<and> last (published b) = updatedResults b
     \<and> length (published b)
         = checkpoints_from (length (emailsToVerify [rec_bob, rec_di])) 0
             (length (emailsToVerify [rec_bob, rec_di])) + 1
     \<and> updatedResults b = process_all fetch_flaky 0 [rec_bob, rec_di]
     \<and> failedCount b = count_from unconfirmed fetch_flaky 0 (emailsToVerify [rec_bob, rec_di])
     \<and> verifiedCount b + failedCount b = length (emailsToVerify [rec_bob, rec_di])
     \<and> count_from thrown fetch_flaky 0 (emailsToVerify [rec_bob, rec_di]) \<le> failedCount b"
    by blast
  with h d c q u p show ?thesis by blast
qed

text \<open>
  The claim as first stated fails for one selected record whose request is answered,
  without any exception, by \<open>isVerified\<close> false: the failure counter ends at one.
\<close>

theorem failure_counter_counterexample:
  "map_option failedCount (verifyAllEmails fetch_denies (Some [rec_di])) = Some 1
   \<and> count_from thrown fetch_denies 0 (emailsToVerify [rec_di]) = 0"
  by code_simp

subsection \<open>Retrying\<close>

text \<open>
  Called with the record that sits at the given position, a retry that succeeds rewrites
  that position only: the two verification fields become \<open>undefined\<close>, the retry count
  goes up by one (from 0 when it was not there), and the time is stamped. With no filter
  and no search term the rows are the records, and a row's Retry button does just that.
\<close>

lemma retryFindEmail_in_place:
  assumes "index < length results" and "results ! index = record"
  shows "\<exists>rs. retryFindEmail (Some results) record index (Answered True data) now = Called rs
     \<and> length rs = length results
     \<and> (\<forall>j. j \<noteq> index \<longrightarrow> rs ! j = results ! j)
     \<and> isVerified (rs ! index) = Undefined \<and> emailQuality (rs ! index) = Undefined
     \<and> retryCount (rs ! index)
         = Some ((case retryCount record of None \<Rightarrow> 0 | Some c \<Rightarrow> c) + 1)
     \<and> lastRetry (rs ! index) = Some now
     \<and> firstName (rs ! index) = firstName record \<and> lastName (rs ! index) = lastName record
     \<and> linkedin (rs ! index) = linkedin record
     \<and> companyName (rs ! index) = companyName record"
  using assms by (simp add: retryFindEmail_def)

lemma filteredResults_all: "filteredResults (Some results) FilterAll [] = results"
  by (simp add: filteredResults_def)

lemma retry_row_unfiltered:
  "index < length results \<Longrightarrow>
   retry_row (Some results) FilterAll [] index answer now
     = retryFindEmail (Some results) (results ! index) index answer now"
  by (simp add: retry_row_def filteredResults_all nth_opt_nth)

text \<open>
  C7. With the filter on records without an address, the only row shows the second record
  of the list, at position 0. Its Retry button passes that position on, and the handler
  writes to position 0 of the whole list: the first record receives the new address and
  the retry count of the row's record plus one, which takes its own count from 2 down
  to 1, while the record that was retried is left as it was.
\<close>

theorem retry_row_lowers_retryCount:
  "filteredResults (Some [rec_ada, rec_cy]) FilterNotFound [] = [rec_cy]
   \<and> retryCount rec_ada = Some 2
   \<and> retry_row (Some [rec_ada, rec_cy]) FilterNotFound [] 0 answer_found 5000
       = Called [rec_ada \<lparr> foundEmail := Some ''cy@example.org'', personalEmails := Some [],
                   isVerified := Undefined, emailQuality := Undefined,
                   retryCount := Some 1, lastRetry := Some 5000 \<rparr>,
                 rec_cy]"
  by code_simp

text \<open>
  C10. When the discovery request throws or comes back with a status that is not \<open>ok\<close>,
  the handler never calls \<open>setResults\<close>: the list, and with it every field of the
  record, stays as it was. The same holds when the handler is reached from a row.
\<close>

theorem failed_retry_changes_nothing:
  assumes "answer = Rejected \<or> (\<exists>data. answer = Answered False data)"
  shows "retryFindEmail results record index answer now = NotCalled
     \<and> retry_row results filterStatus searchTerm index answer now = NotCalled"
  using assms by (auto simp: retryFindEmail_def retry_row_def split: option.splits)

theorem failed_retry_changes_nothing_witness:
  "retryFindEmail (Some [rec_ada, rec_cy]) rec_cy 1 answer_refused 5000 = NotCalled
   \<and> retry_row (Some [rec_ada, rec_cy]) FilterAll [] 1 answer_refused 5000 = NotCalled"
proof -
  have h: "answer_refused = Rejected \<or> (\<exists>data. answer_refused = Answered False data)"
    by (simp add: answer_refused_def)
  show ?thesis by (rule failed_retry_changes_nothing [OF h])
qed

end
